theory Spec2Isabelle
  imports Complex_Main "HOL-Library.Multiset" "HOL-Library.Monad_Syntax"
begin

section \<open>Strings, numbers and errors of the Python runtime\<close>

text \<open>
  A Python \<^verbatim>\<open>str\<close> is a sequence of Unicode code points: \<^verbatim>\<open>len\<close>, indexing, the
  character classes of \<^verbatim>\<open>re\<close> and \<^verbatim>\<open>str.strip\<close> all count code points. A string is
  therefore a list of code points (natural numbers); an ASCII literal is written
  \<open>ustr_of ''...''\<close>.
\<close>

type_synonym ustr = "nat list"

definition ustr_of :: "string \<Rightarrow> ustr" where
  "ustr_of s = map of_char s"

datatype error = IndexError | OverflowError | ValueError | KeyError

text \<open>
  \<^verbatim>\<open>str.isspace\<close> for one code point, which is also what \<^verbatim>\<open>\s\<close> matches in a
  \<^verbatim>\<open>str\<close> pattern and what \<^verbatim>\<open>str.strip()\<close> and \<^verbatim>\<open>str.split()\<close> remove.
\<close>

definition py_isspace :: "nat \<Rightarrow> bool" where
  "py_isspace c =
     ((0x09 \<le> c \<and> c \<le> 0x0D) \<or> (0x1C \<le> c \<and> c \<le> 0x20) \<or> c = 0x85 \<or> c = 0xA0
      \<or> c = 0x1680 \<or> (0x2000 \<le> c \<and> c \<le> 0x200A) \<or> c = 0x2028 \<or> c = 0x2029
      \<or> c = 0x202F \<or> c = 0x205F \<or> c = 0x3000)"

definition py_strip :: "ustr \<Rightarrow> ustr" where
  "py_strip s = rev (dropWhile py_isspace (rev (dropWhile py_isspace s)))"

text \<open>\<^verbatim>\<open>str.split()\<close> with no argument: the maximal runs of non-whitespace.\<close>

fun split_acc :: "ustr \<Rightarrow> ustr \<Rightarrow> ustr list" where
  "split_acc w [] = (if w = [] then [] else [w])"
| "split_acc w (c # cs) =
     (if py_isspace c then (if w = [] then split_acc [] cs else w # split_acc [] cs)
      else split_acc (w @ [c]) cs)"

definition py_split :: "ustr \<Rightarrow> ustr list" where
  "py_split s = split_acc [] s"

definition py_isascii :: "ustr \<Rightarrow> bool" where
  "py_isascii s = list_all (\<lambda>c. c < 128) s"

text \<open>
  Python's \<^verbatim>\<open>float\<close> is IEEE binary64. Every float operation of the source (true
  division of two integers, a product, a sum, the literal \<^verbatim>\<open>0.8\<close>, \<^verbatim>\<open>float(str)\<close>)
  returns the exact result rounded to the nearest representable value, ties to the even
  mantissa. \<open>binary64 q\<close> is that rounding of the exact rational \<open>q\<close>: 53 bits of
  mantissa, exponents from \<open>-1074\<close>. A result of magnitude \<open>2 ^ 1024\<close> or more is
  not a finite float (\<open>float_overflow\<close>).
\<close>

definition pow2 :: "int \<Rightarrow> rat" where
  "pow2 e = (if 0 \<le> e then 2 ^ nat e else 1 / 2 ^ nat (- e))"

fun bit_length :: "nat \<Rightarrow> nat" where
  "bit_length n = (if n = 0 then 0 else Suc (bit_length (n div 2)))"

text \<open>\<open>ilog2 q\<close> is \<open>\<lfloor>log\<^sub>2 q\<rfloor>\<close> for a positive rational \<open>q\<close>.\<close>

definition ilog2 :: "rat \<Rightarrow> int" where
  "ilog2 q =
     (if 1 \<le> q then int (bit_length (nat \<lfloor>q\<rfloor>)) - 1
      else - int (bit_length (nat (\<lceil>1 / q\<rceil> - 1))))"

definition round_half_even :: "rat \<Rightarrow> int" where
  "round_half_even q =
     (let f = \<lfloor>q\<rfloor>; r = q - of_int f
      in if r < 1 / 2 then f else if 1 / 2 < r then f + 1 else if even f then f else f + 1)"

definition binary64 :: "rat \<Rightarrow> rat" where
  "binary64 q =
     (if q = 0 then 0
      else let e = max (ilog2 \<bar>q\<bar> - 52) (- 1074)
           in of_int (round_half_even (q / pow2 e)) * pow2 e)"

definition float_overflow :: "rat \<Rightarrow> bool" where
  "float_overflow x = (2 ^ 1024 \<le> \<bar>x\<bar>)"

text \<open>\<^verbatim>\<open>int(x)\<close> of a finite float: truncation towards zero.\<close>

definition py_trunc :: "rat \<Rightarrow> int" where
  "py_trunc x = (if 0 \<le> x then \<lfloor>x\<rfloor> else \<lceil>x\<rceil>)"

section \<open>ASRDataSeg and ASRData\<close>

text \<open>
  \<^verbatim>\<open>ASRDataSeg\<close>: the four attributes its constructor sets. The times are Python
  integers (unbounded, and the constructor does not refuse a negative one).
\<close>

record ASRDataSeg =
  seg_text :: ustr
  translated_text :: ustr
  start_time :: int
  end_time :: int

text \<open>
  An \<^verbatim>\<open>ASRData\<close> object holds one attribute, the list \<^verbatim>\<open>segments\<close>; the model of a
  document is that list, and a method that mutates the object returns the new list.
  Every position of the list is an object of its own (the parsers and the methods only
  ever store freshly built segments), so a segment is a value.

  \<^verbatim>\<open>ASRData.__init__\<close>: keep the segments whose text is non-empty and non-blank, then
  \<^verbatim>\<open>list.sort\<close> by \<^verbatim>\<open>start_time\<close>. \<^verbatim>\<open>list.sort\<close> is stable; \<open>sort_key\<close> is the stable
  insertion sort.
\<close>

definition keeps :: "ASRDataSeg \<Rightarrow> bool" where
  "keeps seg = (seg_text seg \<noteq> [] \<and> py_strip (seg_text seg) \<noteq> [])"

definition ASRData :: "ASRDataSeg list \<Rightarrow> ASRDataSeg list" where
  "ASRData segments = sort_key start_time (filter keeps segments)"

text \<open>\<^verbatim>\<open>is_word_timestamp\<close>.\<close>

definition seg_valid :: "ASRDataSeg \<Rightarrow> bool" where
  "seg_valid seg =
     (let text = py_strip (seg_text seg)
      in (length (py_split text) = 1 \<and> py_isascii text) \<or> length (py_strip text) \<le> 2)"

definition is_word_timestamp :: "ASRDataSeg list \<Rightarrow> bool" where
  "is_word_timestamp segments =
     (if segments = [] then False
      else let valid_segments = length (filter seg_valid segments);
               total_segments = length segments
           in binary64 (4 / 5) \<le> binary64 (of_nat valid_segments / of_nat total_segments))"

text \<open>
  \<^verbatim>\<open>split_to_word_segments\<close>. The pattern is an alternation; \<^verbatim>\<open>re.finditer\<close> tries the
  alternatives in their order at the current position, takes the first that matches
  (a \<^verbatim>\<open>+\<close> or \<^verbatim>\<open>*\<close> run as long as it goes), continues after the match, and moves on by
  one character where none matches.

  \<^verbatim>\<open>\d\<close> in a \<^verbatim>\<open>str\<close> pattern is any decimal digit of the Unicode database (category
  Nd). The database belongs to the interpreter, not to the repository: the digits
  outside ASCII, with their values, are the parameter \<open>nd\<close>. Below 128 the decimal
  digits are \<^verbatim>\<open>0\<close> to \<^verbatim>\<open>9\<close> in every version of the database.
\<close>

type_synonym udigits = "nat \<Rightarrow> nat option"

definition digit_value :: "udigits \<Rightarrow> nat \<Rightarrow> nat option" where
  "digit_value nd c =
     (if c < 128 then (if 0x30 \<le> c \<and> c \<le> 0x39 then Some (c - 0x30) else None) else nd c)"

definition is_digit :: "udigits \<Rightarrow> nat \<Rightarrow> bool" where
  "is_digit nd c = (digit_value nd c \<noteq> None)"

definition ascii_digit :: "nat \<Rightarrow> bool" where
  "ascii_digit c = (0x30 \<le> c \<and> c \<le> 0x39)"

definition in_range :: "nat \<Rightarrow> nat \<Rightarrow> nat \<Rightarrow> bool" where
  "in_range lo hi c = (lo \<le> c \<and> c \<le> hi)"

definition is_latin :: "nat \<Rightarrow> bool" where
  "is_latin c = (in_range 0x61 0x7A c \<or> in_range 0x41 0x5A c \<or> in_range 0xC0 0xFF c
                 \<or> in_range 0x100 0x17F c \<or> c = 0x27)"

definition is_cyrillic :: "nat \<Rightarrow> bool" where
  "is_cyrillic c = in_range 0x400 0x4FF c"

definition is_greek :: "nat \<Rightarrow> bool" where
  "is_greek c = in_range 0x370 0x3FF c"

definition is_arabic :: "nat \<Rightarrow> bool" where
  "is_arabic c = in_range 0x600 0x6FF c"

definition is_hebrew :: "nat \<Rightarrow> bool" where
  "is_hebrew c = in_range 0x590 0x5FF c"

definition is_thai_mark :: "nat \<Rightarrow> bool" where
  "is_thai_mark c = (in_range 0xE30 0xE3A c \<or> in_range 0xE47 0xE4E c)"

definition run_len :: "(nat \<Rightarrow> bool) \<Rightarrow> ustr \<Rightarrow> nat" where
  "run_len P s = length (takeWhile P s)"

text \<open>The length of the pattern's match at the start of \<open>s\<close>; 0 when it does not match
  there (no alternative matches the empty string).\<close>

definition match_word :: "udigits \<Rightarrow> ustr \<Rightarrow> nat" where
  "match_word nd s =
     (case s of
        [] \<Rightarrow> 0
      | c # cs \<Rightarrow>
          if is_latin c then run_len is_latin s
          else if is_cyrillic c then run_len is_cyrillic s
          else if is_greek c then run_len is_greek s
          else if is_arabic c then run_len is_arabic s
          else if is_hebrew c then run_len is_hebrew s
          else if is_digit nd c then run_len (is_digit nd) s
          else if in_range 0x4E00 0x9FFF c then 1
          else if in_range 0x3040 0x309F c then 1
          else if in_range 0x30A0 0x30FF c then 1
          else if in_range 0xAC00 0xD7AF c then 1
          else if in_range 0xE00 0xE7F c then 1 + run_len is_thai_mark cs
          else if in_range 0x900 0x97F c then 1
          else if in_range 0x980 0x9FF c then 1
          else if in_range 0xE80 0xEFF c then 1
          else if in_range 0x1000 0x109F c then 1
          else 0)"

function find_words :: "udigits \<Rightarrow> ustr \<Rightarrow> ustr list" where
  "find_words nd s =
     (if s = [] then []
      else let n = match_word nd s
           in if n = 0 then find_words nd (tl s) else take n s # find_words nd (drop n s))"
  by pat_completeness auto
termination
  by (relation "measure (\<lambda>(nd, s). length s)") auto

declare find_words.simps [simp del]

text \<open>\<^verbatim>\<open>math.ceil(len(w) / CHARS_PER_PHONEME)\<close>: a true division, then the ceiling. A
  string is shorter than \<open>2 ^ 63\<close>, so the quotient is a finite float.\<close>

definition phonemes :: "ustr \<Rightarrow> int" where
  "phonemes w = \<lceil>binary64 (of_nat (length w) / 4)\<rceil>"

text \<open>
  The inner loop over \<^verbatim>\<open>words_list\<close>. \<^verbatim>\<open>time_per_phoneme * word_phonemes\<close> converts the
  integer to a float and rounds the product; \<^verbatim>\<open>int\<close> of a product that overflowed to
  infinity raises \<^verbatim>\<open>OverflowError\<close>.
\<close>

fun word_loop :: "rat \<Rightarrow> int \<Rightarrow> int \<Rightarrow> ustr list \<Rightarrow> error + ASRDataSeg list" where
  "word_loop time_per_phoneme seg_end current_time [] = Inr []"
| "word_loop time_per_phoneme seg_end current_time (word # rest) =
     (let word_phonemes = phonemes word;
          product = binary64 (time_per_phoneme * binary64 (of_int word_phonemes))
      in if float_overflow product then Inl OverflowError
         else let word_duration = py_trunc product;
                  word_end_time = min (current_time + word_duration) seg_end
              in case word_loop time_per_phoneme seg_end word_end_time rest of
                   Inl e \<Rightarrow> Inl e
                 | Inr others \<Rightarrow>
                     Inr (\<lparr>seg_text = word, translated_text = [],
                           start_time = current_time, end_time = word_end_time\<rparr> # others))"

text \<open>One round of the outer loop: the word segments of one segment.
  \<^verbatim>\<open>duration / max(total_phonemes, 1)\<close> is a true division of two integers, which raises
  \<^verbatim>\<open>OverflowError\<close> when the quotient is too large for a float.\<close>

definition split_segment :: "udigits \<Rightarrow> ASRDataSeg \<Rightarrow> error + ASRDataSeg list" where
  "split_segment nd sg =
     (let text = seg_text sg;
          duration = end_time sg - start_time sg;
          words_list = find_words nd text
      in if words_list = [] then Inr []
         else let total_phonemes = sum_list (map phonemes words_list);
                  time_per_phoneme =
                    binary64 (of_int duration / of_int (max total_phonemes 1))
              in if float_overflow time_per_phoneme then Inl OverflowError
                 else word_loop time_per_phoneme (end_time sg) (start_time sg) words_list)"

fun split_to_word_segments :: "udigits \<Rightarrow> ASRDataSeg list \<Rightarrow> error + ASRDataSeg list" where
  "split_to_word_segments nd [] = Inr []"
| "split_to_word_segments nd (sg # rest) =
     (case split_segment nd sg of
        Inl e \<Rightarrow> Inl e
      | Inr new_segments \<Rightarrow>
          (case split_to_word_segments nd rest of
             Inl e \<Rightarrow> Inl e
           | Inr others \<Rightarrow> Inr (new_segments @ others)))"

text \<open>\<^verbatim>\<open>remove_punctuation\<close>: \<^verbatim>\<open>re.sub(punctuation + "+$", "", s.strip())\<close> on both texts.
  The stripped string has no trailing newline, so \<^verbatim>\<open>$\<close> is the end of the string and
  the one match is the trailing run of the two marks of \<^verbatim>\<open>punctuation\<close>, the
  full-width comma U+FF0C and the ideographic full stop U+3002.\<close>

definition is_punct :: "nat \<Rightarrow> bool" where
  "is_punct c = (c = 0xFF0C \<or> c = 0x3002)"

definition sub_trailing_punct :: "ustr \<Rightarrow> ustr" where
  "sub_trailing_punct s = rev (dropWhile is_punct (rev (py_strip s)))"

definition remove_punctuation :: "ASRDataSeg list \<Rightarrow> ASRDataSeg list" where
  "remove_punctuation segments =
     map (\<lambda>seg. seg\<lparr>seg_text := sub_trailing_punct (seg_text seg),
                     translated_text := sub_trailing_punct (translated_text seg)\<rparr>) segments"

text \<open>\<^verbatim>\<open>merge_segments\<close>; \<open>merged_text = None\<close> is the default argument.\<close>

definition merge_segments ::
    "ASRDataSeg list \<Rightarrow> int \<Rightarrow> int \<Rightarrow> ustr option \<Rightarrow> error + ASRDataSeg list" where
  "merge_segments segments start_index end_index merged_text =
     (if start_index < 0 \<or> end_index \<ge> int (length segments) \<or> start_index > end_index
      then Inl IndexError
      else let i = nat start_index; j = nat end_index;
               merged_start_time = start_time (segments ! i);
               merged_end_time = end_time (segments ! j);
               txt = (case merged_text of
                        None \<Rightarrow> concat (map seg_text (take (j + 1 - i) (drop i segments)))
                      | Some t \<Rightarrow> t);
               merged_seg = \<lparr>seg_text = txt, translated_text = [],
                             start_time = merged_start_time, end_time = merged_end_time\<rparr>
           in Inr (take i segments @ [merged_seg] @ drop (j + 1) segments))"


text \<open>
  \<^verbatim>\<open>optimize_timing\<close>. The loop over \<^verbatim>\<open>range(len(self.segments) - 1)\<close> reads
  \<^verbatim>\<open>segments[i]\<close> and \<^verbatim>\<open>segments[i + 1]\<close> and writes the end of the first and the start
  of the second; the next round reads the second as already written. \<^verbatim>\<open>//\<close> is floor
  division, as \<open>div\<close> on \<open>int\<close> is.
\<close>

fun timing_pass :: "int \<Rightarrow> ASRDataSeg list \<Rightarrow> ASRDataSeg list" where
  "timing_pass threshold_ms (current_seg # next_seg # rest) =
     (let time_gap = start_time next_seg - end_time current_seg
      in if time_gap < threshold_ms
         then let mid_time = (end_time current_seg + start_time next_seg) div 2 + time_gap div 4
              in current_seg\<lparr>end_time := mid_time\<rparr>
                 # timing_pass threshold_ms (next_seg\<lparr>start_time := mid_time\<rparr> # rest)
         else current_seg # timing_pass threshold_ms (next_seg # rest))"
| "timing_pass threshold_ms segments = segments"

definition optimize_timing :: "int \<Rightarrow> ASRDataSeg list \<Rightarrow> ASRDataSeg list" where
  "optimize_timing threshold_ms segments =
     (if is_word_timestamp segments then segments
      else if segments = [] then segments
      else timing_pass threshold_ms segments)"

section \<open>Serializers\<close>

text \<open>
  \<^verbatim>\<open>str(n)\<close> of an integer, and the format specifications \<^verbatim>\<open>:01\<close>, \<^verbatim>\<open>:02\<close>, \<^verbatim>\<open>:03\<close>
  of the f-strings: the decimal digits, filled with zeros after the sign up to the
  width.
\<close>

fun dec_digits :: "nat \<Rightarrow> ustr" where
  "dec_digits n = (if n < 10 then [0x30 + n] else dec_digits (n div 10) @ [0x30 + n mod 10])"

declare dec_digits.simps [simp del]

definition py_str :: "int \<Rightarrow> ustr" where
  "py_str i = (if i < 0 then 0x2D # dec_digits (nat (- i)) else dec_digits (nat i))"

definition format_zero :: "nat \<Rightarrow> int \<Rightarrow> ustr" where
  "format_zero width i =
     (let ds = dec_digits (nat \<bar>i\<bar>)
      in if i < 0 then 0x2D # replicate (width - 1 - length ds) 0x30 @ ds
         else replicate (width - length ds) 0x30 @ ds)"

text \<open>\<^verbatim>\<open>ASRDataSeg._ms_to_srt_time\<close> and \<^verbatim>\<open>to_srt_ts\<close>; \<^verbatim>\<open>divmod\<close> floors, as \<open>div\<close>
  and \<open>mod\<close> on \<open>int\<close> do.\<close>

definition ms_to_srt_time :: "int \<Rightarrow> ustr" where
  "ms_to_srt_time ms =
     (let total_seconds = ms div 1000; milliseconds = ms mod 1000;
          minutes0 = total_seconds div 60; seconds = total_seconds mod 60;
          hours = minutes0 div 60; minutes = minutes0 mod 60
      in format_zero 2 hours @ ustr_of '':'' @ format_zero 2 minutes @ ustr_of '':''
         @ format_zero 2 seconds @ ustr_of '','' @ format_zero 3 milliseconds)"

definition to_srt_ts :: "ASRDataSeg \<Rightarrow> ustr" where
  "to_srt_ts sg =
     ms_to_srt_time (start_time sg) @ ustr_of '' --> '' @ ms_to_srt_time (end_time sg)"

text \<open>\<^verbatim>\<open>ASRDataSeg._ms_to_ass_ts\<close> and \<^verbatim>\<open>to_ass_ts\<close>; \<^verbatim>\<open>int(milliseconds / 10)\<close> is a
  true division and a truncation.\<close>

definition ms_to_ass_ts :: "int \<Rightarrow> ustr" where
  "ms_to_ass_ts ms =
     (let total_seconds = ms div 1000; milliseconds = ms mod 1000;
          minutes0 = total_seconds div 60; seconds = total_seconds mod 60;
          hours = minutes0 div 60; minutes = minutes0 mod 60;
          centiseconds = py_trunc (binary64 (of_int milliseconds / 10))
      in format_zero 1 hours @ ustr_of '':'' @ format_zero 2 minutes @ ustr_of '':''
         @ format_zero 2 seconds @ ustr_of ''.'' @ format_zero 2 centiseconds)"

text \<open>The four layouts, as the code points of their names.\<close>

definition layout_original_on_top :: ustr where
  "layout_original_on_top = [0x539F, 0x6587, 0x5728, 0x4E0A]"

definition layout_translate_on_top :: ustr where
  "layout_translate_on_top = [0x8BD1, 0x6587, 0x5728, 0x4E0A]"

definition layout_only_original :: ustr where
  "layout_only_original = [0x4EC5, 0x539F, 0x6587]"

definition layout_only_translate :: ustr where
  "layout_only_translate = [0x4EC5, 0x8BD1, 0x6587]"

text \<open>\<^verbatim>\<open>str.join\<close>.\<close>

fun py_join :: "ustr \<Rightarrow> ustr list \<Rightarrow> ustr" where
  "py_join sep [] = []"
| "py_join sep [x] = x"
| "py_join sep (x # y # ys) = x @ sep @ py_join sep (y # ys)"

text \<open>
  \<^verbatim>\<open>to_srt\<close> (and \<^verbatim>\<open>to_txt\<close>): the text of one segment under a layout. A string is
  true when it is not empty. The last branch is the \<^verbatim>\<open>else\<close> of the chain:
  \<^verbatim>\<open>seg.transcript\<close>, the original text.
\<close>

definition layout_text :: "ustr \<Rightarrow> ASRDataSeg \<Rightarrow> ustr" where
  "layout_text layout sg =
     (let original = seg_text sg; translated = translated_text sg
      in if layout = layout_original_on_top
         then (if translated \<noteq> [] then original @ [0x0A] @ translated else original)
         else if layout = layout_translate_on_top
         then (if translated \<noteq> [] then translated @ [0x0A] @ original else original)
         else if layout = layout_only_original then original
         else if layout = layout_only_translate
         then (if translated \<noteq> [] then translated else original)
         else seg_text sg)"

definition srt_block :: "ustr \<Rightarrow> nat \<Rightarrow> ASRDataSeg \<Rightarrow> ustr" where
  "srt_block layout n sg =
     py_str (int n) @ [0x0A] @ to_srt_ts sg @ [0x0A] @ layout_text layout sg @ [0x0A]"

definition to_srt :: "ustr \<Rightarrow> ASRDataSeg list \<Rightarrow> ustr" where
  "to_srt layout segments =
     py_join [0x0A] (map (\<lambda>(n, sg). srt_block layout n sg) (enumerate 1 segments))"

text \<open>
  \<^verbatim>\<open>to_json\<close>. A \<^verbatim>\<open>dict\<close> is an association list in insertion order, its keys distinct;
  the inner dictionary, which always has the same four keys, is a record.
\<close>

record subtitle_entry =
  entry_start_time :: int
  entry_end_time :: int
  original_subtitle :: ustr
  translated_subtitle :: ustr

definition to_json :: "ASRDataSeg list \<Rightarrow> (ustr \<times> subtitle_entry) list" where
  "to_json segments =
     map (\<lambda>(i, segment).
            (py_str (int i),
             \<lparr>entry_start_time = start_time segment, entry_end_time = end_time segment,
              original_subtitle = seg_text segment,
              translated_subtitle = translated_text segment\<rparr>))
         (enumerate 1 segments)"

text \<open>
  \<^verbatim>\<open>to_ass\<close>. \<open>style_str\<close> is \<open>None\<close> for the default argument; \<^verbatim>\<open>not style_str\<close> holds
  for \<^verbatim>\<open>None\<close> and for the empty string. The chain of \<^verbatim>\<open>if\<close>/\<^verbatim>\<open>elif\<close> on the layout has
  no \<^verbatim>\<open>else\<close>: under any other layout the loop appends nothing for the segment.
\<close>

definition default_style :: ustr where
  "default_style =
     ustr_of ''[V4+ Styles]'' @ [0x0A]
     @ ustr_of ''Format: Name,Fontname,Fontsize,PrimaryColour,SecondaryColour,OutlineColour,BackColour,''
     @ ustr_of ''Bold,Italic,Underline,StrikeOut,ScaleX,ScaleY,Spacing,Angle,BorderStyle,Outline,Shadow,''
     @ ustr_of ''Alignment,MarginL,MarginR,MarginV,Encoding'' @ [0x0A]
     @ ustr_of ''Style: Default,MicrosoftYaHei-Bold,40,&H00FFFFFF,&H000000FF,&H00000000,&H00000000,-1,0,0,0,100,100,''
     @ ustr_of ''0,0,1,2,0,2,10,10,15,1'' @ [0x0A]
     @ ustr_of ''Style: Secondary,MicrosoftYaHei-Bold,30,&H00FFFFFF,&H000000FF,&H00000000,&H00000000,-1,0,0,0,100,100,''
     @ ustr_of ''0,0,1,2,0,2,10,10,15,1''"

definition ass_head :: "ustr option \<Rightarrow> ustr" where
  "ass_head style_str =
     (let style = (case style_str of None \<Rightarrow> default_style
                   | Some st \<Rightarrow> if st = [] then default_style else st)
      in ustr_of ''[Script Info]'' @ [0x0A]
         @ ustr_of ''; Script generated by VideoCaptioner'' @ [0x0A]
         @ ustr_of ''; https://github.com/weifeng2333'' @ [0x0A]
         @ ustr_of ''ScriptType: v4.00+'' @ [0x0A]
         @ ustr_of ''PlayResX: 1280'' @ [0x0A]
         @ ustr_of ''PlayResY: 720'' @ [0x0A, 0x0A]
         @ style @ [0x0A, 0x0A]
         @ ustr_of ''[Events]'' @ [0x0A]
         @ ustr_of ''Format: Layer, Start, End, Style, Name, MarginL, MarginR, MarginV, Effect, Text''
         @ [0x0A])"

definition dialogue :: "ustr \<Rightarrow> ustr \<Rightarrow> ustr \<Rightarrow> ustr \<Rightarrow> ustr" where
  "dialogue start_ts end_ts style txt =
     ustr_of ''Dialogue: 0,'' @ start_ts @ ustr_of '','' @ end_ts @ ustr_of '','' @ style
     @ ustr_of '',,0,0,0,,'' @ txt @ [0x0A]"

definition ass_lines :: "ustr \<Rightarrow> ASRDataSeg \<Rightarrow> ustr" where
  "ass_lines layout sg =
     (let start_ts = ms_to_ass_ts (start_time sg); end_ts = ms_to_ass_ts (end_time sg);
          original = seg_text sg; translated = translated_text sg;
          has_translation = (translated \<noteq> [] \<and> py_strip translated \<noteq> [])
      in if layout = layout_translate_on_top
         then (if has_translation
               then dialogue start_ts end_ts (ustr_of ''Secondary'') original
                    @ dialogue start_ts end_ts (ustr_of ''Default'') translated
               else dialogue start_ts end_ts (ustr_of ''Default'') original)
         else if layout = layout_original_on_top
         then (if has_translation
               then dialogue start_ts end_ts (ustr_of ''Secondary'') translated
                    @ dialogue start_ts end_ts (ustr_of ''Default'') original
               else dialogue start_ts end_ts (ustr_of ''Default'') original)
         else if layout = layout_only_original
         then dialogue start_ts end_ts (ustr_of ''Default'') original
         else if layout = layout_only_translate
         then dialogue start_ts end_ts (ustr_of ''Default'')
                (if has_translation then translated else original)
         else [])"

definition to_ass :: "ustr option \<Rightarrow> ustr \<Rightarrow> ASRDataSeg list \<Rightarrow> ustr" where
  "to_ass style_str layout segments =
     ass_head style_str @ concat (map (ass_lines layout) segments)"

section \<open>Parsers\<close>

text \<open>
  \<^verbatim>\<open>int(s)\<close> of a string: surrounding whitespace is stripped, a sign may come first,
  then decimal digits (of any script), single underscores allowed between digits;
  anything else raises \<^verbatim>\<open>ValueError\<close> (\<open>None\<close>). The whitespace that \<^verbatim>\<open>int\<close>
  skips is that of \<^verbatim>\<open>str.strip()\<close> without the four separators U+001C to U+001F:
  outside ASCII it is the whitespace of Unicode, inside ASCII it is the six characters
  of the C locale.
\<close>

definition int_space :: "nat \<Rightarrow> bool" where
  "int_space c = (py_isspace c \<and> \<not> (0x1C \<le> c \<and> c \<le> 0x1F))"

definition int_strip :: "ustr \<Rightarrow> ustr" where
  "int_strip s = rev (dropWhile int_space (rev (dropWhile int_space s)))"

fun parse_digits :: "udigits \<Rightarrow> nat \<Rightarrow> ustr \<Rightarrow> nat option" where
  "parse_digits nd acc [] = Some acc"
| "parse_digits nd acc (c # cs) =
     (if c = 0x5F
      then (case cs of
              [] \<Rightarrow> None
            | d # ds \<Rightarrow>
                (case digit_value nd d of
                   None \<Rightarrow> None
                 | Some v \<Rightarrow> parse_digits nd (10 * acc + v) ds))
      else (case digit_value nd c of
              None \<Rightarrow> None
            | Some v \<Rightarrow> parse_digits nd (10 * acc + v) cs))"

definition parse_nat :: "udigits \<Rightarrow> ustr \<Rightarrow> nat option" where
  "parse_nat nd s =
     (case s of
        [] \<Rightarrow> None
      | c # cs \<Rightarrow> (case digit_value nd c of None \<Rightarrow> None | Some v \<Rightarrow> parse_digits nd v cs))"

definition py_int :: "udigits \<Rightarrow> ustr \<Rightarrow> int option" where
  "py_int nd s =
     (case int_strip s of
        [] \<Rightarrow> None
      | c # cs \<Rightarrow>
          if c = 0x2D then map_option (\<lambda>n. - int n) (parse_nat nd cs)
          else if c = 0x2B then map_option int (parse_nat nd cs)
          else map_option int (parse_nat nd (c # cs)))"

text \<open>
  \<^verbatim>\<open>from_json\<close>: \<^verbatim>\<open>sorted(json_data.keys(), key=int)\<close> raises \<^verbatim>\<open>ValueError\<close> on a key
  that is not an integer and is stable otherwise; each key is then looked up. The
  entries are records, so the four fields are there; the constructor filters and sorts.
\<close>

definition int_key :: "udigits \<Rightarrow> ustr \<Rightarrow> int" where
  "int_key nd k = (case py_int nd k of Some n \<Rightarrow> n | None \<Rightarrow> 0)"

fun json_segments ::
    "(ustr \<times> subtitle_entry) list \<Rightarrow> ustr list \<Rightarrow> error + ASRDataSeg list" where
  "json_segments json_data [] = Inr []"
| "json_segments json_data (i # keys) =
     (case map_of json_data i of
        None \<Rightarrow> Inl KeyError
      | Some segment_data \<Rightarrow>
          (case json_segments json_data keys of
             Inl e \<Rightarrow> Inl e
           | Inr segments \<Rightarrow>
               Inr (\<lparr>seg_text = original_subtitle segment_data,
                     translated_text = translated_subtitle segment_data,
                     start_time = entry_start_time segment_data,
                     end_time = entry_end_time segment_data\<rparr> # segments)))"

definition from_json ::
    "udigits \<Rightarrow> (ustr \<times> subtitle_entry) list \<Rightarrow> error + ASRDataSeg list" where
  "from_json nd json_data =
     (if list_ex (\<lambda>k. py_int nd k = None) (map fst json_data) then Inl ValueError
      else case json_segments json_data (sort_key (int_key nd) (map fst json_data)) of
             Inl e \<Rightarrow> Inl e
           | Inr segments \<Rightarrow> Inr (ASRData segments))"

text \<open>
  The pieces of the timestamp patterns. \<open>take_digits nd k\<close> is \<^verbatim>\<open>\d{k}\<close>: it returns
  the matched digits and the rest of the input. \<open>expect lit\<close> is a literal. No decimal
  digit of the Unicode database is a whitespace character and no literal of the
  patterns starts with one, so a greedy \<^verbatim>\<open>\s*\<close> never gives a character back:
  \<open>skip_spaces\<close>.
\<close>

fun take_digits :: "udigits \<Rightarrow> nat \<Rightarrow> ustr \<Rightarrow> (ustr \<times> ustr) option" where
  "take_digits nd 0 s = Some ([], s)"
| "take_digits nd (Suc k) [] = None"
| "take_digits nd (Suc k) (c # cs) =
     (if is_digit nd c
      then (case take_digits nd k cs of None \<Rightarrow> None | Some (m, r) \<Rightarrow> Some (c # m, r))
      else None)"

definition expect :: "ustr \<Rightarrow> ustr \<Rightarrow> ustr option" where
  "expect lit s = (if take (length lit) s = lit then Some (drop (length lit) s) else None)"

definition skip_spaces :: "ustr \<Rightarrow> ustr" where
  "skip_spaces s = dropWhile py_isspace s"

text \<open>The value of a string of decimal digits, as \<^verbatim>\<open>int\<close> and \<^verbatim>\<open>float\<close> read it.\<close>

definition digits_value :: "udigits \<Rightarrow> ustr \<Rightarrow> nat" where
  "digits_value nd ds =
     foldl (\<lambda>a c. 10 * a + (case digit_value nd c of Some v \<Rightarrow> v | None \<Rightarrow> 0)) 0 ds"

text \<open>
  \<^verbatim>\<open>from_youtube_vtt\<close>. A timestamp \<^verbatim>\<open>\d{2}:\d{2}:\d{2}\.\d{3}\<close> is kept as its four
  strings of digits (hours, minutes, seconds, milliseconds); \<open>hms_string\<close> is the
  text it was matched from.
\<close>

type_synonym hms = "ustr \<times> ustr \<times> ustr \<times> ustr"

definition match_hms :: "udigits \<Rightarrow> ustr \<Rightarrow> (hms \<times> ustr) option" where
  "match_hms nd s =
     do {
       (h, s1) \<leftarrow> take_digits nd 2 s;
       s2 \<leftarrow> expect (ustr_of '':'') s1;
       (m, s3) \<leftarrow> take_digits nd 2 s2;
       s4 \<leftarrow> expect (ustr_of '':'') s3;
       (sec, s5) \<leftarrow> take_digits nd 2 s4;
       s6 \<leftarrow> expect (ustr_of ''.'') s5;
       (ms, s7) \<leftarrow> take_digits nd 3 s6;
       Some ((h, m, sec, ms), s7)
     }"

definition hms_string :: "hms \<Rightarrow> ustr" where
  "hms_string t =
     (case t of (h, m, sec, ms) \<Rightarrow> h @ ustr_of '':'' @ m @ ustr_of '':'' @ sec @ ustr_of ''.'' @ ms)"

text \<open>
  \<^verbatim>\<open>parse_timestamp\<close>: \<^verbatim>\<open>int(float(h) * 3600000 + float(m) * 60000 + float(s) * 1000)\<close>,
  every operation in floats; \<^verbatim>\<open>s\<close> is the text \<^verbatim>\<open>SS.mmm\<close>.
\<close>

definition parse_timestamp :: "udigits \<Rightarrow> hms \<Rightarrow> int" where
  "parse_timestamp nd t =
     (case t of
        (h, m, sec, ms) \<Rightarrow>
          let fh = binary64 (of_nat (digits_value nd h));
              fm = binary64 (of_nat (digits_value nd m));
              fs = binary64 (of_nat (digits_value nd sec) + of_nat (digits_value nd ms) / 1000)
          in py_trunc
               (binary64 (binary64 (binary64 (fh * 3600000) + binary64 (fm * 60000))
                          + binary64 (fs * 1000))))"

text \<open>
  The pattern \<^verbatim>\<open><(\d{2}:\d{2}:\d{2}\.\d{3})>([^<]*)\<close> at the start of \<open>s\<close>: the
  timestamp, the content up to the next \<^verbatim>\<open><\<close>, and the rest of the input.
\<close>

definition match_marker :: "udigits \<Rightarrow> ustr \<Rightarrow> (hms \<times> ustr \<times> ustr) option" where
  "match_marker nd s =
     do {
       s1 \<leftarrow> expect (ustr_of ''<'') s;
       (t, s2) \<leftarrow> match_hms nd s1;
       s3 \<leftarrow> expect (ustr_of ''>'') s2;
       Some (t, takeWhile (\<lambda>c. c \<noteq> 0x3C) s3, dropWhile (\<lambda>c. c \<noteq> 0x3C) s3)
     }"

text \<open>A match consumes its text: what the patterns return is a suffix of the input.\<close>

lemma take_digits_length: "take_digits nd k s = Some (m, r) \<Longrightarrow> length s = k + length r \<and> s = m @ r \<and> length m = k"
  by (induction nd k s arbitrary: m r rule: take_digits.induct)
     (auto split: if_splits option.splits)

lemma expect_rest: "expect lit s = Some r \<Longrightarrow> s = lit @ r"
  by (auto simp: expect_def split: if_splits) (metis append_take_drop_id)

lemma match_hms_rest: "match_hms nd s = Some (t, r) \<Longrightarrow> s = hms_string t @ r"
  by (auto simp: match_hms_def hms_string_def split: bind_splits prod.splits
      dest!: take_digits_length expect_rest)

lemma match_marker_rest:
  "match_marker nd s = Some (t, w, r) \<Longrightarrow> s = [0x3C] @ hms_string t @ [0x3E] @ w @ r"
  by (auto simp: match_marker_def ustr_of_def split: bind_splits prod.splits
      dest!: match_hms_rest expect_rest)

lemma match_marker_shorter: "match_marker nd s = Some (t, w, r) \<Longrightarrow> length r < length s"
  by (drule match_marker_rest) simp

text \<open>\<^verbatim>\<open>pattern.finditer(text)\<close>: the matches from left to right, each as (timestamp,
  content); the search goes on after a match and moves by one character where the
  pattern does not match.\<close>

function find_markers :: "udigits \<Rightarrow> ustr \<Rightarrow> (hms \<times> ustr) list" where
  "find_markers nd s =
     (if s = [] then []
      else case match_marker nd s of
             None \<Rightarrow> find_markers nd (tl s)
           | Some (t, w, r) \<Rightarrow> (t, w) # find_markers nd r)"
  by pat_completeness auto
termination
  by (relation "measure (\<lambda>(nd, s). length s)") (auto dest: match_marker_shorter)

declare find_markers.simps [simp del]

text \<open>
  \<^verbatim>\<open>split_timestamped_text\<close>: the loop over \<^verbatim>\<open>range(len(matches) - 1)\<close> reads
  \<^verbatim>\<open>matches[i]\<close> and \<^verbatim>\<open>matches[i + 1]\<close> and appends a segment only \<^verbatim>\<open>if word\<close>.
\<close>

fun word_pairs :: "udigits \<Rightarrow> (hms \<times> ustr) list \<Rightarrow> ASRDataSeg list" where
  "word_pairs nd (current_match # next_match # rest) =
     (let start_t = parse_timestamp nd (fst current_match);
          end_t = parse_timestamp nd (fst next_match);
          word = py_strip (snd current_match)
      in (if word \<noteq> []
          then [\<lparr>seg_text = word, translated_text = [], start_time = start_t,
                  end_time = end_t\<rparr>]
          else [])
         @ word_pairs nd (next_match # rest))"
| "word_pairs nd matches = []"

definition split_timestamped_text :: "udigits \<Rightarrow> ustr \<Rightarrow> ASRDataSeg list" where
  "split_timestamped_text nd text = word_pairs nd (find_markers nd text)"

text \<open>
  \<^verbatim>\<open>re.search(r"\n(.*?<c>.*?</c>.*)", block)\<close>: the first line after a newline that holds
  \<^verbatim>\<open><c>\<close> and, after it, \<^verbatim>\<open></c>\<close>; the group is that whole line (\<^verbatim>\<open>.\<close> matches all but
  the newline). If \<^verbatim>\<open></c>\<close> follows any \<^verbatim>\<open><c>\<close> of the line, it follows the first one.
\<close>

fun find_sub :: "ustr \<Rightarrow> ustr \<Rightarrow> nat option" where
  "find_sub sub [] = (if sub = [] then Some 0 else None)"
| "find_sub sub (c # cs) =
     (if take (length sub) (c # cs) = sub then Some 0
      else map_option Suc (find_sub sub cs))"

definition has_c_markup :: "ustr \<Rightarrow> bool" where
  "has_c_markup line =
     (case find_sub (ustr_of ''<c>'') line of
        None \<Rightarrow> False
      | Some i \<Rightarrow> find_sub (ustr_of ''</c>'') (drop (i + 3) line) \<noteq> None)"

fun find_c_row :: "ustr \<Rightarrow> ustr option" where
  "find_c_row [] = None"
| "find_c_row (c # cs) =
     (if c = 0x0A \<and> has_c_markup (takeWhile (\<lambda>x. x \<noteq> 0x0A) cs)
      then Some (takeWhile (\<lambda>x. x \<noteq> 0x0A) cs)
      else find_c_row cs)"

text \<open>\<^verbatim>\<open>re.sub(r"<c>|</c>", "", row)\<close>.\<close>

function remove_c_tags :: "ustr \<Rightarrow> ustr" where
  "remove_c_tags s =
     (if s = [] then []
      else if take 3 s = ustr_of ''<c>'' then remove_c_tags (drop 3 s)
      else if take 4 s = ustr_of ''</c>'' then remove_c_tags (drop 4 s)
      else hd s # remove_c_tags (tl s))"
  by pat_completeness auto
termination
  by (relation "measure length") auto

declare remove_c_tags.simps [simp del]

text \<open>The block's own pattern,
  \<^verbatim>\<open>(\d{2}):(\d{2}):(\d{2}\.\d{3})\s*-->\s*(\d{2}):(\d{2}):(\d{2}\.\d{3})\<close>, matched
  at the start of the first line.\<close>

definition match_timestamp_line :: "udigits \<Rightarrow> ustr \<Rightarrow> (hms \<times> hms) option" where
  "match_timestamp_line nd line =
     do {
       (t1, s1) \<leftarrow> match_hms nd line;
       s2 \<leftarrow> expect (ustr_of ''-->'') (skip_spaces s1);
       (t2, s3) \<leftarrow> match_hms nd (skip_spaces s2);
       Some (t1, t2)
     }"

text \<open>
  One round of the loop over the blocks. \<^verbatim>\<open>lines[0]\<close> of
  \<^verbatim>\<open>block.strip().split("\n")\<close> is the stripped block up to its first newline. The
  numbers \<^verbatim>\<open>block_start_time\<close> and \<^verbatim>\<open>block_end_time\<close> are computed and never read; the
  block's timestamps go into the text as strings.
\<close>

definition wrap_text :: "hms \<Rightarrow> hms \<Rightarrow> ustr \<Rightarrow> ustr" where
  "wrap_text t1 t2 text =
     ustr_of ''<'' @ hms_string t1 @ ustr_of ''>'' @ text
     @ ustr_of ''<'' @ hms_string t2 @ ustr_of ''>''"

definition youtube_block :: "udigits \<Rightarrow> ustr \<Rightarrow> ASRDataSeg list" where
  "youtube_block nd block =
     (case match_timestamp_line nd (takeWhile (\<lambda>c. c \<noteq> 0x0A) (py_strip block)) of
        None \<Rightarrow> []
      | Some (t1, t2) \<Rightarrow>
          (case find_c_row block of
             None \<Rightarrow> []
           | Some row \<Rightarrow> split_timestamped_text nd (wrap_text t1 t2 (remove_c_tags row))))"

text \<open>\<^verbatim>\<open>re.split(r"\n\n+", s)\<close>.\<close>

lemma blank_run_shorter:
  "take 2 s = [0x0A, 0x0A] \<Longrightarrow> length (dropWhile (\<lambda>c. c = 0x0A) s) < length s"
proof (cases s)
  case Nil
  then show "take 2 s = [0x0A, 0x0A] \<Longrightarrow> ?thesis" by simp
next
  case (Cons c cs)
  assume "take 2 s = [0x0A, 0x0A]"
  with Cons have "c = 0x0A" by simp
  with Cons show ?thesis
    using length_dropWhile_le [of "\<lambda>c. c = 0x0A" cs] by simp
qed

function split_blank_runs :: "ustr \<Rightarrow> ustr \<Rightarrow> ustr list" where
  "split_blank_runs acc s =
     (if s = [] then [acc]
      else if take 2 s = [0x0A, 0x0A]
      then acc # split_blank_runs [] (dropWhile (\<lambda>c. c = 0x0A) s)
      else split_blank_runs (acc @ [hd s]) (tl s))"
  by pat_completeness auto
termination
  by (relation "measure (\<lambda>(acc, s). length s)") (auto dest: blank_run_shorter)

declare split_blank_runs.simps [simp del]

definition from_youtube_vtt :: "udigits \<Rightarrow> ustr \<Rightarrow> ASRDataSeg list" where
  "from_youtube_vtt nd vtt_str =
     ASRData (concat (map (youtube_block nd) (split_blank_runs [] (py_strip vtt_str))))"

text \<open>
  \<^verbatim>\<open>from_srt\<close>. \<^verbatim>\<open>str.splitlines()\<close> ends a line at each of the line boundaries of
  Python (\<^verbatim>\<open>\r\n\<close> counting as one) and returns no empty last line.
\<close>

definition is_linebreak :: "nat \<Rightarrow> bool" where
  "is_linebreak c =
     (c = 0x0A \<or> c = 0x0B \<or> c = 0x0C \<or> c = 0x0D \<or> c = 0x1C \<or> c = 0x1D \<or> c = 0x1E
      \<or> c = 0x85 \<or> c = 0x2028 \<or> c = 0x2029)"

fun splitlines_acc :: "ustr \<Rightarrow> ustr \<Rightarrow> ustr list" where
  "splitlines_acc acc [] = (if acc = [] then [] else [acc])"
| "splitlines_acc acc (c # cs) =
     (if is_linebreak c
      then (case cs of
              [] \<Rightarrow> [acc]
            | d # ds \<Rightarrow>
                if c = 0x0D \<and> d = 0x0A then acc # splitlines_acc [] ds
                else acc # splitlines_acc [] cs)
      else splitlines_acc (acc @ [c]) cs)"

definition splitlines :: "ustr \<Rightarrow> ustr list" where
  "splitlines s = splitlines_acc [] s"

text \<open>
  \<^verbatim>\<open>re.split(r"\n\s*\n", s)\<close>. At a newline the greedy \<^verbatim>\<open>\s*\<close> takes the whole run of
  whitespace that follows and gives characters back until a newline ends the match:
  the match runs to the last newline of that run, and there is none when the run holds
  no newline. \<open>blank_sep_len s\<close> is the length of the match at the start of \<open>s\<close>, 0
  when there is none.
\<close>

definition blank_sep_len :: "ustr \<Rightarrow> nat" where
  "blank_sep_len s =
     (case s of
        [] \<Rightarrow> 0
      | c # cs \<Rightarrow>
          if c \<noteq> 0x0A then 0
          else let w = takeWhile py_isspace cs
               in if 0x0A \<in> set w then 1 + length (dropWhile (\<lambda>x. x \<noteq> 0x0A) (rev w))
                  else 0)"

lemma blank_sep_len_le: "blank_sep_len s \<le> length s"
proof (cases s)
  case Nil
  then show ?thesis by (simp add: blank_sep_len_def)
next
  case (Cons c cs)
  have "length (dropWhile (\<lambda>x. x \<noteq> 0x0A) (rev (takeWhile py_isspace cs))) \<le> length cs"
    using length_dropWhile_le [of "\<lambda>x. x \<noteq> 0x0A" "rev (takeWhile py_isspace cs)"]
      length_takeWhile_le [of py_isspace cs] by simp
  with Cons show ?thesis by (simp add: blank_sep_len_def Let_def)
qed

function split_blank :: "ustr \<Rightarrow> ustr \<Rightarrow> ustr list" where
  "split_blank acc s =
     (if s = [] then [acc]
      else let n = blank_sep_len s
           in if n = 0 then split_blank (acc @ [hd s]) (tl s)
              else acc # split_blank [] (drop n s))"
  by pat_completeness auto
termination
  by (relation "measure (\<lambda>(acc, s). length s)") auto

declare split_blank.simps [simp del]

text \<open>
  The pattern of the timestamp line,
  \<^verbatim>\<open>(\d{2}):(\d{2}):(\d{1,2})[.,](\d{3})\s-->\s(\d{2}):(\d{2}):(\d{1,2})[.,](\d{3})\<close>,
  matched at the start of the line. \<^verbatim>\<open>(\d{1,2})[.,]\<close> takes two digits if it can; when
  two digits and a separator matched, one digit and a separator cannot (a digit is no
  separator), so the choice is made here. The result is the eight numbers
  \<^verbatim>\<open>list(map(int, match.groups()))\<close>.
\<close>

definition one_space :: "ustr \<Rightarrow> ustr option" where
  "one_space s = (case s of [] \<Rightarrow> None | c # r \<Rightarrow> if py_isspace c then Some r else None)"

definition dot_or_comma :: "ustr \<Rightarrow> ustr option" where
  "dot_or_comma s =
     (case s of [] \<Rightarrow> None | c # r \<Rightarrow> if c = 0x2E \<or> c = 0x2C then Some r else None)"

definition match_seconds :: "udigits \<Rightarrow> ustr \<Rightarrow> (ustr \<times> ustr) option" where
  "match_seconds nd s =
     (case do { (d, r) \<leftarrow> take_digits nd 2 s; r' \<leftarrow> dot_or_comma r; Some (d, r') } of
        Some x \<Rightarrow> Some x
      | None \<Rightarrow> do { (d, r) \<leftarrow> take_digits nd 1 s; r' \<leftarrow> dot_or_comma r; Some (d, r') })"

definition match_srt_stamp :: "udigits \<Rightarrow> ustr \<Rightarrow> (int \<times> ustr) option" where
  "match_srt_stamp nd s =
     do {
       (h, s1) \<leftarrow> take_digits nd 2 s;
       s2 \<leftarrow> expect (ustr_of '':'') s1;
       (m, s3) \<leftarrow> take_digits nd 2 s2;
       s4 \<leftarrow> expect (ustr_of '':'') s3;
       (sec, s5) \<leftarrow> match_seconds nd s4;
       (ms, s6) \<leftarrow> take_digits nd 3 s5;
       Some (int (digits_value nd h) * 3600000 + int (digits_value nd m) * 60000
             + int (digits_value nd sec) * 1000 + int (digits_value nd ms), s6)
     }"

definition srt_time_pattern :: "udigits \<Rightarrow> ustr \<Rightarrow> (int \<times> int) option" where
  "srt_time_pattern nd line =
     do {
       (start_t, s1) \<leftarrow> match_srt_stamp nd line;
       s2 \<leftarrow> one_space s1;
       s3 \<leftarrow> expect (ustr_of ''-->'') s2;
       s4 \<leftarrow> one_space s3;
       (end_t, s5) \<leftarrow> match_srt_stamp nd s4;
       Some (start_t, end_t)
     }"

text \<open>The test for translated subtitles: every block has at most 4 lines and the share
  of blocks with exactly 4 lines, a float, is at least the float \<^verbatim>\<open>0.98\<close>.\<close>

definition has_translated_subtitle :: "ustr list \<Rightarrow> bool" where
  "has_translated_subtitle blocks =
     (let blocks_lines_count = map (\<lambda>block. length (splitlines block)) blocks
      in length blocks_lines_count > 0
         \<and> list_all (\<lambda>count. count \<le> 4) blocks_lines_count
         \<and> binary64 (49 / 50)
             \<le> binary64 (of_nat (length (filter (\<lambda>count. count = 4) blocks_lines_count))
                          / of_nat (length blocks_lines_count)))"

text \<open>One round of the loop over the blocks: no segment, or one.\<close>

definition srt_block_segments :: "udigits \<Rightarrow> bool \<Rightarrow> ustr \<Rightarrow> ASRDataSeg list" where
  "srt_block_segments nd translated block =
     (let lines = splitlines block
      in if length lines < 3 then []
         else case srt_time_pattern nd (lines ! 1) of
                None \<Rightarrow> []
              | Some (start_t, end_t) \<Rightarrow>
                  if translated \<and> length lines \<ge> 4
                  then [\<lparr>seg_text = lines ! 2, translated_text = lines ! 3,
                          start_time = start_t, end_time = end_t\<rparr>]
                  else [\<lparr>seg_text = lines ! 2, translated_text = [],
                          start_time = start_t, end_time = end_t\<rparr>])"

definition from_srt :: "udigits \<Rightarrow> ustr \<Rightarrow> ASRDataSeg list" where
  "from_srt nd srt_str =
     (let blocks = split_blank [] (py_strip srt_str);
          translated = has_translated_subtitle blocks
      in ASRData (concat (map (srt_block_segments nd translated) blocks)))"

text \<open>
  The segment that \<^verbatim>\<open>split_timestamped_text\<close> builds from the matches \<open>i\<close> and
  \<open>i + 1\<close>, and two blocks of a YouTube file for the examples.
\<close>

definition pair_segment :: "udigits \<Rightarrow> (hms \<times> ustr) list \<Rightarrow> nat \<Rightarrow> ASRDataSeg" where
  "pair_segment nd ms i =
     \<lparr>seg_text = py_strip (snd (ms ! i)), translated_text = [],
      start_time = parse_timestamp nd (fst (ms ! i)),
      end_time = parse_timestamp nd (fst (ms ! Suc i))\<rparr>"

definition example_block :: ustr where
  "example_block = ustr_of ''00:00:00.000 --> 00:00:02.000'' @ [0x0A]
     @ ustr_of ''<c>hi</c><00:00:01.000>''"

definition two_word_block :: ustr where
  "two_word_block = ustr_of ''00:00:00.000 --> 00:00:02.000'' @ [0x0A]
     @ ustr_of ''hello<00:00:01.000><c> world</c>''"

section \<open>The document invariant\<close>

definition sorted_by_start :: "ASRDataSeg list \<Rightarrow> bool" where
  "sorted_by_start segments = sorted (map start_time segments)"

definition no_blank_text :: "ASRDataSeg list \<Rightarrow> bool" where
  "no_blank_text segments = list_all (\<lambda>seg. py_strip (seg_text seg) \<noteq> []) segments"

definition doc_inv :: "ASRDataSeg list \<Rightarrow> bool" where
  "doc_inv segments = (sorted_by_start segments \<and> no_blank_text segments)"

text \<open>
  \<^verbatim>\<open>ASRDataSeg(text, start_time, end_time)\<close> with an ASCII text, the translated text
  left at its default \<^verbatim>\<open>""\<close>: the segments of the examples.
\<close>

definition seg_of :: "string \<Rightarrow> int \<Rightarrow> int \<Rightarrow> ASRDataSeg" where
  "seg_of s a b = \<lparr>seg_text = ustr_of s, translated_text = [], start_time = a, end_time = b\<rparr>"

text \<open>
  What the SRT round trip is stated for. \<open>first_line\<close> is the first element of
  \<^verbatim>\<open>str.splitlines\<close>, \<open>py_rstrip\<close> is \<^verbatim>\<open>str.rstrip()\<close> and \<open>trailing_space\<close> is what it
  removes; \<open>read_line\<close> is a written text up to the first newline of its trailing
  whitespace, which is where the blank line that ends its block begins.

  A segment is writable under a layout when the first line of the text that \<^verbatim>\<open>to_srt\<close>
  writes for it is its original text, no block that a blank line cuts out of that text
  after the first one is read as a subtitle (\<open>unread\<close>: \<^verbatim>\<open>from_srt\<close> builds no segment
  from it), and both times are from 0 up to, not including, 100 hours (the hours are
  written on two digits and read back on two). The last segment of a document is
  written at the end of the file, where \<^verbatim>\<open>strip()\<close> removes its trailing whitespace: it
  is writable as the last one when the same holds of its text so stripped.
\<close>

definition first_line :: "ustr \<Rightarrow> ustr" where
  "first_line s = takeWhile (\<lambda>c. \<not> is_linebreak c) s"

definition py_rstrip :: "ustr \<Rightarrow> ustr" where
  "py_rstrip s = rev (dropWhile py_isspace (rev s))"

definition trailing_space :: "ustr \<Rightarrow> ustr" where
  "trailing_space s = rev (takeWhile py_isspace (rev s))"

definition read_line :: "ustr \<Rightarrow> ustr" where
  "read_line s = py_rstrip s @ takeWhile (\<lambda>c. c \<noteq> 0x0A) (trailing_space s)"

definition unread :: "udigits \<Rightarrow> ustr \<Rightarrow> bool" where
  "unread nd s =
     list_all (\<lambda>p. srt_block_segments nd False p = []) (tl (split_blank [] s))"

definition srt_writable :: "ustr \<Rightarrow> udigits \<Rightarrow> ASRDataSeg \<Rightarrow> bool" where
  "srt_writable layout nd sg =
     (first_line (layout_text layout sg) = seg_text sg
      \<and> unread nd (read_line (layout_text layout sg))
      \<and> 0 \<le> start_time sg \<and> start_time sg < 360000000
      \<and> 0 \<le> end_time sg \<and> end_time sg < 360000000)"

definition srt_last_writable :: "ustr \<Rightarrow> udigits \<Rightarrow> ASRDataSeg \<Rightarrow> bool" where
  "srt_last_writable layout nd sg =
     (first_line (py_rstrip (layout_text layout sg)) = seg_text sg
      \<and> unread nd (py_rstrip (layout_text layout sg)))"

text \<open>
  A condition on the text alone that makes a segment writable. A string has no blank
  line when no newline in it is followed by whitespace up to another newline or up to
  the end of the string: \<^verbatim>\<open>\n\s*\n\<close> matches nowhere in it, whatever follows it. A
  segment is safe to write when the first line of its written text is its original
  text, the written text without its trailing whitespace has no blank line, and the
  times are as above.
\<close>

fun no_blank_line :: "ustr \<Rightarrow> bool" where
  "no_blank_line [] = True"
| "no_blank_line (c # cs) =
     ((c = 0x0A \<longrightarrow> dropWhile py_isspace cs \<noteq> [] \<and> 0x0A \<notin> set (takeWhile py_isspace cs))
      \<and> no_blank_line cs)"

definition srt_safe :: "ustr \<Rightarrow> ASRDataSeg \<Rightarrow> bool" where
  "srt_safe layout sg =
     (first_line (layout_text layout sg) = seg_text sg
      \<and> no_blank_line (py_rstrip (layout_text layout sg))
      \<and> 0 \<le> start_time sg \<and> start_time sg < 360000000
      \<and> 0 \<le> end_time sg \<and> end_time sg < 360000000)"

text \<open>
  The parts of the file that \<^verbatim>\<open>to_srt\<close> writes and the blocks that \<^verbatim>\<open>from_srt\<close> cuts out
  of it. \<open>srt_head\<close> is the number line and the timestamp line of a block; \<open>srt_file\<close>
  is \<^verbatim>\<open>to_srt\<close> with the numbering started at \<open>k\<close>; \<open>srt_stripped\<close> is that file after
  \<^verbatim>\<open>strip()\<close>; \<open>srt_chunks\<close> are its blocks, segment by segment, and \<open>srt_blocks\<close> its
  blocks when every segment is safe to write, one for each segment. \<open>plain_line\<close> is a
  line that does not start with whitespace and has no line boundary, \<open>stamp_char\<close> a
  character of a timestamp line, \<open>written\<close> and \<open>readable\<close> a segment whose text is not
  blank, with what the lemmas on the file need of it, and \<open>without_translation\<close> the
  segment as \<^verbatim>\<open>from_srt\<close> builds it when it reads no translated text.
\<close>

definition plain_line :: "ustr \<Rightarrow> bool" where
  "plain_line s = (s \<noteq> [] \<and> \<not> py_isspace (hd s) \<and> list_all (\<lambda>c. \<not> is_linebreak c) s)"

definition stamp_char :: "nat \<Rightarrow> bool" where
  "stamp_char c = (ascii_digit c \<or> c = 0x3A \<or> c = 0x2C \<or> c = 0x20 \<or> c = 0x2D \<or> c = 0x3E)"

definition srt_head :: "nat \<Rightarrow> ASRDataSeg \<Rightarrow> ustr" where
  "srt_head n sg = py_str (int n) @ [0x0A] @ to_srt_ts sg @ [0x0A]"

definition without_translation :: "ASRDataSeg \<Rightarrow> ASRDataSeg" where
  "without_translation sg = sg\<lparr>translated_text := []\<rparr>"

definition srt_file :: "ustr \<Rightarrow> nat \<Rightarrow> ASRDataSeg list \<Rightarrow> ustr" where
  "srt_file layout k d =
     py_join [0x0A] (map (\<lambda>(n, sg). srt_block layout n sg) (enumerate k d))"

fun srt_stripped :: "ustr \<Rightarrow> nat \<Rightarrow> ASRDataSeg list \<Rightarrow> ustr" where
  "srt_stripped layout k [] = []"
| "srt_stripped layout k [sg] = srt_head k sg @ py_rstrip (layout_text layout sg)"
| "srt_stripped layout k (sg # sg' # r) =
     srt_head k sg @ layout_text layout sg @ [0x0A, 0x0A] @ srt_stripped layout (Suc k) (sg' # r)"

fun srt_chunks :: "ustr \<Rightarrow> nat \<Rightarrow> ASRDataSeg list \<Rightarrow> ustr list" where
  "srt_chunks layout k [] = []"
| "srt_chunks layout k [sg] = split_blank [] (srt_head k sg @ py_rstrip (layout_text layout sg))"
| "srt_chunks layout k (sg # sg' # r) =
     split_blank [] (srt_head k sg @ read_line (layout_text layout sg))
     @ srt_chunks layout (Suc k) (sg' # r)"

fun srt_blocks :: "ustr \<Rightarrow> nat \<Rightarrow> ASRDataSeg list \<Rightarrow> ustr list" where
  "srt_blocks layout k [] = []"
| "srt_blocks layout k [sg] = [srt_head k sg @ py_rstrip (layout_text layout sg)]"
| "srt_blocks layout k (sg # sg' # r) =
     (srt_head k sg @ read_line (layout_text layout sg)) # srt_blocks layout (Suc k) (sg' # r)"

definition written :: "ustr \<Rightarrow> ASRDataSeg \<Rightarrow> bool" where
  "written layout sg =
     (first_line (layout_text layout sg) = seg_text sg \<and> py_strip (seg_text sg) \<noteq> []
      \<and> 0 \<le> start_time sg \<and> 0 \<le> end_time sg)"

definition readable :: "ustr \<Rightarrow> ASRDataSeg \<Rightarrow> bool" where
  "readable layout sg = (srt_safe layout sg \<and> py_strip (seg_text sg) \<noteq> [])"

text \<open>
  The documents of the SRT examples, and the blocks that \<^verbatim>\<open>to_srt\<close> writes for a segment
  that ends at 100 hours and for one that starts at -1.
\<close>

definition padded_doc :: "ASRDataSeg list" where
  "padded_doc =
     [\<lparr>seg_text = ustr_of ''hello '', translated_text = ustr_of '' hola '', start_time = 0,
       end_time = 1000\<rparr>,
      seg_of '' world'' 1000 2500]"

definition plain_doc :: "ASRDataSeg list" where
  "plain_doc = [seg_of ''b'' 0 1000, seg_of ''c'' 1000 2000]"

definition paragraph_text :: ustr where
  "paragraph_text = ustr_of ''a'' @ [0x0A] @ ustr_of ''x'' @ [0x0A, 0x0A] @ ustr_of ''y''"

definition paragraph_seg :: ASRDataSeg where
  "paragraph_seg =
     \<lparr>seg_text = ustr_of ''a'', translated_text = ustr_of ''x'' @ [0x0A, 0x0A] @ ustr_of ''y'',
      start_time = 0, end_time = 1000\<rparr>"

definition paragraph_doc :: "ASRDataSeg list" where
  "paragraph_doc = [paragraph_seg, seg_of ''c'' 1000 2000]"

definition line_break_doc :: "ASRDataSeg list" where
  "line_break_doc =
     [\<lparr>seg_text = ustr_of ''a'' @ [0x0A] @ ustr_of ''b'', translated_text = [],
       start_time = 0, end_time = 1000\<rparr>,
      seg_of ''c'' 1000 2000]"

definition translated_doc :: "ASRDataSeg list" where
  "translated_doc =
     [\<lparr>seg_text = ustr_of ''a'', translated_text = ustr_of ''b'', start_time = 0,
       end_time = 1000\<rparr>,
      seg_of ''c'' 1000 2000]"

definition swapped_doc :: "ASRDataSeg list" where
  "swapped_doc =
     [\<lparr>seg_text = ustr_of ''b'', translated_text = ustr_of ''a'', start_time = 0,
       end_time = 1000\<rparr>,
      seg_of ''c'' 1000 2000]"

definition blank_line_doc :: "ASRDataSeg list" where
  "blank_line_doc =
     [\<lparr>seg_text = ustr_of ''a'',
       translated_text = ustr_of ''x'' @ [0x0A, 0x0A] @ ustr_of ''2'' @ [0x0A]
         @ ustr_of ''00:00:05,000 --> 00:00:06,000'' @ [0x0A] @ ustr_of ''fake'',
       start_time = 0, end_time = 1000\<rparr>]"

definition two_block_doc :: "ASRDataSeg list" where
  "two_block_doc =
     [\<lparr>seg_text = ustr_of ''a'', translated_text = ustr_of ''x'', start_time = 0,
       end_time = 1000\<rparr>,
      seg_of ''fake'' 5000 6000]"

definition long_block :: ustr where
  "long_block = ustr_of ''1'' @ [0x0A] @ ustr_of ''00:00:00,000 --> 100:00:00,000'' @ [0x0A]
     @ ustr_of ''a''"

definition negative_block :: ustr where
  "negative_block = ustr_of ''1'' @ [0x0A] @ ustr_of ''-1:59:59,999 --> 00:00:01,000'' @ [0x0A]
     @ ustr_of ''a''"

section \<open>Construction\<close>

lemma py_strip_Nil: "py_strip [] = []"
  by (simp add: py_strip_def)

lemma keeps_iff: "keeps seg = (py_strip (seg_text seg) \<noteq> [])"
  by (auto simp: keeps_def py_strip_Nil)

lemma ASRData_sorted: "sorted_by_start (ASRData segments)"
  by (simp add: ASRData_def sorted_by_start_def)

lemma ASRData_no_blank: "no_blank_text (ASRData segments)"
  by (simp add: ASRData_def no_blank_text_def list_all_iff keeps_iff)

lemma ASRData_inv: "doc_inv (ASRData segments)"
  by (simp add: doc_inv_def ASRData_sorted ASRData_no_blank)

lemma ASRData_id: "doc_inv segments \<Longrightarrow> ASRData segments = segments"
proof -
  assume inv: "doc_inv segments"
  then have "filter keeps segments = segments"
    by (simp add: doc_inv_def no_blank_text_def list_all_iff keeps_iff)
  moreover from inv have "sort_key start_time segments = segments"
    by (simp add: doc_inv_def sorted_by_start_def sort_key_id_if_sorted)
  ultimately show ?thesis by (simp add: ASRData_def)
qed

text \<open>
  Claim C6. Constructing a document from any list of segments yields a sequence that is
  sorted non-decreasing by \<open>start_time\<close>, holds exactly the input segments whose
  stripped text is non-empty (as a multiset), and keeps segments of equal
  \<open>start_time\<close> in their input order: for every key \<open>k\<close> the segments starting at
  \<open>k\<close> appear in the result as they do in the filtered input.
\<close>

theorem ASRData_construction:
  "sorted (map start_time (ASRData segments))
   \<and> list_all (\<lambda>s. py_strip (seg_text s) \<noteq> []) (ASRData segments)
   \<and> mset (ASRData segments) = mset (filter (\<lambda>s. py_strip (seg_text s) \<noteq> []) segments)
   \<and> (\<forall>k. filter (\<lambda>s. start_time s = k) (ASRData segments)
          = filter (\<lambda>s. start_time s = k)
              (filter (\<lambda>s. py_strip (seg_text s) \<noteq> []) segments))"
proof -
  have k: "keeps = (\<lambda>s. py_strip (seg_text s) \<noteq> [])"
    by (rule ext) (simp add: keeps_iff)
  show ?thesis
    by (simp add: ASRData_def k list_all_iff sort_key_stable)
qed

lemma ASRData_example:
  "ASRData [seg_of ''b'' 5 6, seg_of '' '' 0 1, seg_of ''a'' 5 7, seg_of ''c'' 1 2]
     = [seg_of ''c'' 1 2, seg_of ''b'' 5 6, seg_of ''a'' 5 7]"
  by (simp add: ASRData_def keeps_def py_strip_def py_isspace_def seg_of_def ustr_of_def)

theorem ASRData_construction_witness:
  "sorted (map start_time (ASRData [seg_of ''b'' 5 6, seg_of '' '' 0 1, seg_of ''a'' 5 7, seg_of ''c'' 1 2]))
   \<and> ASRData [seg_of ''b'' 5 6, seg_of '' '' 0 1, seg_of ''a'' 5 7, seg_of ''c'' 1 2]
       = [seg_of ''c'' 1 2, seg_of ''b'' 5 6, seg_of ''a'' 5 7]
   \<and> filter (\<lambda>s. start_time s = 5)
        (ASRData [seg_of ''b'' 5 6, seg_of '' '' 0 1, seg_of ''a'' 5 7, seg_of ''c'' 1 2])
       = [seg_of ''b'' 5 6, seg_of ''a'' 5 7]"
  using ASRData_construction [of "[seg_of ''b'' 5 6, seg_of '' '' 0 1, seg_of ''a'' 5 7, seg_of ''c'' 1 2]"]
  by (simp add: ASRData_example) (simp add: seg_of_def)

section \<open>Merging\<close>

text \<open>
  Claim C9. \<open>merge_segments\<close> returns a document exactly when
  \<open>0 \<le> start_index \<le> end_index < len(segments)\<close>; for every other pair of indices it raises
  \<open>IndexError\<close>, and so it does for the indices 0 and 5 on a document of 4 segments.
\<close>

theorem merge_segments_range:
  "((\<exists>r. merge_segments segments s e t = Inr r) = (0 \<le> s \<and> s \<le> e \<and> e < int (length segments)))
   \<and> (\<not> (0 \<le> s \<and> s \<le> e \<and> e < int (length segments))
        \<longrightarrow> merge_segments segments s e t = Inl IndexError)
   \<and> (length segments = 4 \<longrightarrow> merge_segments segments 0 5 t = Inl IndexError)"
  by (auto simp: merge_segments_def Let_def)

theorem merge_segments_range_witness:
  "merge_segments [seg_of ''a'' 0 1, seg_of ''b'' 1 2, seg_of ''c'' 2 3, seg_of ''d'' 3 4] 0 5 None
     = Inl IndexError
   \<and> (\<exists>r. merge_segments [seg_of ''a'' 0 1, seg_of ''b'' 1 2, seg_of ''c'' 2 3, seg_of ''d'' 3 4] 1 2 None
          = Inr r)
   \<and> merge_segments [seg_of ''a'' 0 1, seg_of ''b'' 1 2, seg_of ''c'' 2 3, seg_of ''d'' 3 4] 2 1 None
     = Inl IndexError"
  using merge_segments_range [of "[seg_of ''a'' 0 1, seg_of ''b'' 1 2, seg_of ''c'' 2 3, seg_of ''d'' 3 4]" 0 5 None]
    merge_segments_range [of "[seg_of ''a'' 0 1, seg_of ''b'' 1 2, seg_of ''c'' 2 3, seg_of ''d'' 3 4]" 1 2 None]
    merge_segments_range [of "[seg_of ''a'' 0 1, seg_of ''b'' 1 2, seg_of ''c'' 2 3, seg_of ''d'' 3 4]" 2 1 None]
  by simp

section \<open>Timing\<close>

lemma timing_pass_length: "length (timing_pass th segments) = length segments"
  by (induction th segments rule: timing_pass.induct) (simp_all add: Let_def)

lemma timing_pass_text: "map seg_text (timing_pass th segments) = map seg_text segments"
  by (induction th segments rule: timing_pass.induct) (simp_all add: Let_def)

lemma timing_pass_translated:
  "map translated_text (timing_pass th segments) = map translated_text segments"
  by (induction th segments rule: timing_pass.induct) (simp_all add: Let_def)

lemma binary64_four_fifths: "binary64 (4 / 5) = 3602879701896397 / 4503599627370496"
  by code_simp

lemma binary64_zero: "binary64 0 = 0"
  by (simp add: binary64_def)

lemma binary64_one: "binary64 1 = 1"
  by (simp add: binary64_def ilog2_def pow2_def round_half_even_def)

lemma binary64_half: "binary64 (1 / 2) = 1 / 2"
  by code_simp

lemma hello_world_not_valid: "seg_text s = ustr_of ''hello world'' \<Longrightarrow> \<not> seg_valid s"
  by (simp add: seg_valid_def py_strip_def py_isspace_def py_split_def py_isascii_def
      ustr_of_def)

lemma hello_world_not_word_timestamp:
  "\<not> is_word_timestamp [seg_of ''hello world'' a b, seg_of ''hello world'' c d]"
  by (simp add: is_word_timestamp_def hello_world_not_valid seg_of_def binary64_four_fifths
      binary64_zero)

text \<open>
  Claim C10. \<open>optimize_timing\<close> keeps the number of segments, every original text and
  every translated text (a segment has no attribute besides the two texts and the two
  times); on an empty document and on a word-timestamped one it changes nothing.
\<close>

theorem optimize_timing_frame:
  "length (optimize_timing th segments) = length segments
   \<and> map seg_text (optimize_timing th segments) = map seg_text segments
   \<and> map translated_text (optimize_timing th segments) = map translated_text segments
   \<and> (segments = [] \<or> is_word_timestamp segments \<longrightarrow> optimize_timing th segments = segments)"
  by (simp add: optimize_timing_def timing_pass_length timing_pass_text timing_pass_translated)

theorem optimize_timing_frame_witness:
  "map seg_text (optimize_timing 1000 [seg_of ''hello world'' 0 1000, seg_of ''hello world'' 1200 2000])
     = [ustr_of ''hello world'', ustr_of ''hello world'']
   \<and> length (optimize_timing 1000 [seg_of ''hello world'' 0 1000, seg_of ''hello world'' 1200 2000]) = 2
   \<and> optimize_timing 1000 [] = []"
  using optimize_timing_frame [of 1000 "[seg_of ''hello world'' 0 1000, seg_of ''hello world'' 1200 2000]"]
    optimize_timing_frame [of 1000 "[]"]
  by (simp add: seg_of_def)

text \<open>
  Claim C4. On a document that is not classified word-timestamped and whose segments are
  A from 0 to 1000 and B from 1200 to 2000, \<open>optimize_timing\<close> with threshold 1000 moves
  the end of A and the start of B to 1150 and changes nothing else.
\<close>

theorem optimize_timing_example:
  assumes "\<not> is_word_timestamp [A, B]"
    and "start_time A = 0" and "end_time A = 1000"
    and "start_time B = 1200" and "end_time B = 2000"
  shows "optimize_timing 1000 [A, B] = [A\<lparr>end_time := 1150\<rparr>, B\<lparr>start_time := 1150\<rparr>]"
  using assms by (simp add: optimize_timing_def Let_def)

theorem optimize_timing_example_witness:
  "\<not> is_word_timestamp [seg_of ''hello world'' 0 1000, seg_of ''hello world'' 1200 2000]
   \<and> optimize_timing 1000 [seg_of ''hello world'' 0 1000, seg_of ''hello world'' 1200 2000]
     = [seg_of ''hello world'' 0 1150, seg_of ''hello world'' 1150 2000]"
  using optimize_timing_example [OF hello_world_not_word_timestamp [of 0 1000 1200 2000]]
    hello_world_not_word_timestamp [of 0 1000 1200 2000]
  by (simp add: seg_of_def)

section \<open>What the operations keep of the invariant\<close>

lemma strip_nonempty_iff: "(py_strip x \<noteq> []) = (\<exists>c\<in>set x. \<not> py_isspace c)"
proof -
  have a: "(dropWhile py_isspace (rev (dropWhile py_isspace x)) = [])
           = (\<forall>c\<in>set (dropWhile py_isspace x). py_isspace c)"
    by (auto simp: dropWhile_eq_Nil_conv dest: set_dropWhileD)
  have b: "(\<forall>c\<in>set (dropWhile py_isspace x). py_isspace c) = (dropWhile py_isspace x = [])"
  proof (cases "dropWhile py_isspace x")
    case Nil
    show ?thesis unfolding Nil by simp
  next
    case (Cons y ys)
    then have "\<not> py_isspace y" using hd_dropWhile [of py_isspace x] by simp
    with Cons show ?thesis by auto
  qed
  show ?thesis
    unfolding py_strip_def using a b by (simp add: dropWhile_eq_Nil_conv)
qed



lemma sorted_drop_middle:
  "sorted (xs @ [a] @ ys @ zs) \<Longrightarrow> sorted (xs @ [a] @ zs)"
  by (auto simp: sorted_append)








section \<open>Word segments\<close>





















lemma binary64_exact_values:
  "binary64 (5 / 4) = 5 / 4" "binary64 (1 / 4) = 1 / 4" "binary64 2 = 2" "binary64 250 = 250"
  "binary64 500 = 500" "binary64 100 = 100"
  by code_simp+

lemma ceiling_quarters: "\<lceil>5 / 4 :: rat\<rceil> = 2" "\<lceil>1 / 4 :: rat\<rceil> = 1"
  by (rule ceiling_unique, simp, simp)+

lemmas token_defs = match_word_def run_len_def is_latin_def in_range_def ustr_of_def
  is_cyrillic_def is_greek_def is_arabic_def is_hebrew_def is_digit_def digit_value_def

lemma find_words_hello_world:
  "find_words nd (ustr_of ''hello world'') = [ustr_of ''hello'', ustr_of ''world'']"
  by (simp add: find_words.simps token_defs)

text \<open>
  Claim C3. \<open>split_to_word_segments\<close> on the document of the one segment
  \<^verbatim>\<open>"hello world"\<close> from 0 to 1000 replaces the segment list by exactly
  \<^verbatim>\<open>"hello"\<close> from 0 to 500 and \<^verbatim>\<open>"world"\<close> from 500 to 1000, whatever the
  interpreter's table of non-ASCII digits is.
\<close>

theorem split_to_word_segments_hello_world:
  "split_to_word_segments nd [seg_of ''hello world'' 0 1000]
     = Inr [seg_of ''hello'' 0 500, seg_of ''world'' 500 1000]"
proof -
  have ph: "phonemes (ustr_of ''hello'') = 2" "phonemes (ustr_of ''world'') = 2"
    by (simp_all add: phonemes_def ustr_of_def binary64_exact_values ceiling_quarters)
  show ?thesis
    by (simp add: split_segment_def seg_of_def find_words_hello_world ph binary64_exact_values
        float_overflow_def py_trunc_def Let_def)
qed

theorem split_to_word_segments_hello_world_witness:
  "split_to_word_segments (\<lambda>c. None) [seg_of ''hello world'' 0 1000]
     = Inr [seg_of ''hello'' 0 500, seg_of ''world'' 500 1000]"
  using split_to_word_segments_hello_world [of "\<lambda>c. None"] by simp

lemma split_to_word_segments_unsorted:
  "doc_inv [seg_of ''a b'' 0 1000, seg_of ''c'' 100 200]
   \<and> split_to_word_segments nd [seg_of ''a b'' 0 1000, seg_of ''c'' 100 200]
     = Inr [seg_of ''a'' 0 500, seg_of ''b'' 500 1000, seg_of ''c'' 100 200]
   \<and> \<not> sorted_by_start [seg_of ''a'' 0 500, seg_of ''b'' 500 1000, seg_of ''c'' 100 200]"
proof -
  have fw: "find_words nd (ustr_of ''a b'') = [ustr_of ''a'', ustr_of ''b'']"
     "find_words nd (ustr_of ''c'') = [ustr_of ''c'']"
    by (simp_all add: find_words.simps token_defs)
  have ph: "phonemes (ustr_of ''a'') = 1" "phonemes (ustr_of ''b'') = 1" "phonemes (ustr_of ''c'') = 1"
    by (simp_all add: phonemes_def ustr_of_def binary64_exact_values ceiling_quarters)
  have "doc_inv [seg_of ''a b'' 0 1000, seg_of ''c'' 100 200]"
    by (simp add: doc_inv_def sorted_by_start_def no_blank_text_def seg_of_def ustr_of_def
        py_strip_def py_isspace_def)
  moreover have "split_to_word_segments nd [seg_of ''a b'' 0 1000, seg_of ''c'' 100 200]
     = Inr [seg_of ''a'' 0 500, seg_of ''b'' 500 1000, seg_of ''c'' 100 200]"
    by (simp add: split_segment_def seg_of_def fw ph binary64_exact_values binary64_one
        float_overflow_def py_trunc_def Let_def)
  moreover have "\<not> sorted_by_start [seg_of ''a'' 0 500, seg_of ''b'' 500 1000, seg_of ''c'' 100 200]"
    by (simp add: sorted_by_start_def seg_of_def)
  ultimately show ?thesis by simp
qed

lemma not_word_timestamp_if_none_valid:
  "segments \<noteq> [] \<Longrightarrow> \<forall>s\<in>set segments. \<not> seg_valid s \<Longrightarrow> \<not> is_word_timestamp segments"
proof -
  assume a: "segments \<noteq> []" "\<forall>s\<in>set segments. \<not> seg_valid s"
  then have "filter seg_valid segments = []" by (simp add: filter_empty_conv)
  with a(1) show ?thesis
    by (simp add: is_word_timestamp_def binary64_four_fifths binary64_zero)
qed

lemma optimize_timing_unsorted:
  "doc_inv [seg_of ''hello world'' 0 10000, seg_of ''hello world'' 100 200,
            seg_of ''hello world'' 150 300]
   \<and> optimize_timing 1000 [seg_of ''hello world'' 0 10000, seg_of ''hello world'' 100 200,
                           seg_of ''hello world'' 150 300]
     = [seg_of ''hello world'' 0 2575, seg_of ''hello world'' 2575 162,
        seg_of ''hello world'' 162 300]
   \<and> \<not> sorted_by_start [seg_of ''hello world'' 0 2575, seg_of ''hello world'' 2575 162,
        seg_of ''hello world'' 162 300]"
proof -
  have nw: "\<not> is_word_timestamp [seg_of ''hello world'' 0 10000, seg_of ''hello world'' 100 200,
            seg_of ''hello world'' 150 300]"
    by (rule not_word_timestamp_if_none_valid) (simp_all add: hello_world_not_valid seg_of_def)
  have "doc_inv [seg_of ''hello world'' 0 10000, seg_of ''hello world'' 100 200,
            seg_of ''hello world'' 150 300]"
    by (simp add: doc_inv_def sorted_by_start_def no_blank_text_def seg_of_def ustr_of_def
        py_strip_def py_isspace_def)
  moreover have "optimize_timing 1000 [seg_of ''hello world'' 0 10000, seg_of ''hello world'' 100 200,
                           seg_of ''hello world'' 150 300]
     = [seg_of ''hello world'' 0 2575, seg_of ''hello world'' 2575 162,
        seg_of ''hello world'' 162 300]"
    using nw by (simp add: optimize_timing_def) (simp add: seg_of_def Let_def)
  moreover have "\<not> sorted_by_start [seg_of ''hello world'' 0 2575, seg_of ''hello world'' 2575 162,
        seg_of ''hello world'' 162 300]"
    by (simp add: sorted_by_start_def seg_of_def)
  ultimately show ?thesis by simp
qed

lemma merge_segments_blank_text:
  "doc_inv [seg_of ''a'' 0 1]
   \<and> merge_segments [seg_of ''a'' 0 1] 0 0 (Some []) = Inr [seg_of [] 0 1]
   \<and> \<not> doc_inv [seg_of [] 0 1]"
  by (simp add: doc_inv_def sorted_by_start_def no_blank_text_def seg_of_def ustr_of_def
      py_strip_def py_isspace_def merge_segments_def)




section \<open>The ASS serializer and the layouts\<close>

lemma ass_lines_unknown:
  "layout \<noteq> layout_translate_on_top \<Longrightarrow> layout \<noteq> layout_original_on_top
     \<Longrightarrow> layout \<noteq> layout_only_original \<Longrightarrow> layout \<noteq> layout_only_translate
     \<Longrightarrow> ass_lines layout sg = []"
  by (simp add: ass_lines_def Let_def)

lemma to_ass_unknown_layout:
  "layout \<noteq> layout_translate_on_top \<Longrightarrow> layout \<noteq> layout_original_on_top
     \<Longrightarrow> layout \<noteq> layout_only_original \<Longrightarrow> layout \<noteq> layout_only_translate
     \<Longrightarrow> to_ass style_str layout segments = ass_head style_str"
  by (simp add: to_ass_def ass_lines_unknown)

lemma layout_text_unknown:
  "layout \<noteq> layout_translate_on_top \<Longrightarrow> layout \<noteq> layout_original_on_top
     \<Longrightarrow> layout \<noteq> layout_only_original \<Longrightarrow> layout \<noteq> layout_only_translate
     \<Longrightarrow> layout_text layout sg = seg_text sg"
  by (simp add: layout_text_def Let_def)

lemma ms_to_ass_ts_examples:
  "ms_to_ass_ts 0 = ustr_of ''0:00:00.00''" "ms_to_ass_ts 1000 = ustr_of ''0:00:01.00''"
  by (simp_all add: ms_to_ass_ts_def format_zero_def dec_digits.simps binary64_zero py_trunc_def
      ustr_of_def)

text \<open>
  Claim C8 says that \<open>to_ass\<close> falls back to the original-only output under an
  unrecognized layout. The code does not: under the layout \<^verbatim>\<open>"default"\<close> the output for
  the document of the one segment \<^verbatim>\<open>"hello"\<close> from 0 to 1000 is the header alone, with no
  \<^verbatim>\<open>Dialogue\<close> line, while the original-only layout gives the header and one
  \<^verbatim>\<open>Default\<close> line. (\<open>layout_text_unknown\<close>: \<^verbatim>\<open>to_srt\<close> and \<^verbatim>\<open>to_txt\<close> do fall back
  to the original text.)
\<close>

theorem to_ass_unrecognized_layout:
  "to_ass None (ustr_of ''default'') [seg_of ''hello'' 0 1000] = ass_head None
   \<and> to_ass None layout_only_original [seg_of ''hello'' 0 1000]
     = ass_head None @ ustr_of ''Dialogue: 0,0:00:00.00,0:00:01.00,Default,,0,0,0,,hello'' @ [0x0A]"
proof -
  have "to_ass None (ustr_of ''default'') [seg_of ''hello'' 0 1000] = ass_head None"
    by (rule to_ass_unknown_layout)
      (simp_all add: ustr_of_def layout_translate_on_top_def layout_original_on_top_def
        layout_only_original_def layout_only_translate_def)
  moreover have "to_ass None layout_only_original [seg_of ''hello'' 0 1000]
     = ass_head None @ ustr_of ''Dialogue: 0,0:00:00.00,0:00:01.00,Default,,0,0,0,,hello'' @ [0x0A]"
    by (simp add: to_ass_def ass_lines_def seg_of_def ms_to_ass_ts_examples dialogue_def Let_def
        layout_translate_on_top_def layout_original_on_top_def layout_only_original_def)
      (simp add: ustr_of_def)
  ultimately show ?thesis by simp
qed

section \<open>The JSON round trip\<close>

lemma dec_digits_range: "\<forall>c\<in>set (dec_digits n). 0x30 \<le> c \<and> c \<le> 0x39"
proof (induction n rule: dec_digits.induct)
  case (1 n)
  have "n mod 10 \<le> 9" by presburger
  with 1 show ?case by (subst dec_digits.simps) auto
qed

lemma dec_digits_ascii: "list_all ascii_digit (dec_digits n)"
  using dec_digits_range [of n] by (simp add: list_all_iff ascii_digit_def)

lemma dec_digits_nonempty: "dec_digits n \<noteq> []"
  by (subst dec_digits.simps) simp

lemma ascii_digit_value: "ascii_digit c \<Longrightarrow> digit_value nd c = Some (c - 0x30)"
  by (simp add: ascii_digit_def digit_value_def)

lemma ascii_digit_not_space: "ascii_digit c \<Longrightarrow> \<not> py_isspace c"
  by (auto simp: ascii_digit_def py_isspace_def)

lemma parse_digits_ascii:
  "list_all ascii_digit xs
     \<Longrightarrow> parse_digits nd acc xs = Some (foldl (\<lambda>a c. 10 * a + (c - 0x30)) acc xs)"
proof (induction xs arbitrary: acc)
  case Nil
  then show ?case by simp
next
  case (Cons c cs)
  then have c: "ascii_digit c" and cs: "list_all ascii_digit cs" by simp_all
  from c have "c \<noteq> 0x5F" by (auto simp: ascii_digit_def)
  with Cons.IH [OF cs] ascii_digit_value [OF c] show ?case by simp
qed

lemma parse_nat_ascii:
  "xs \<noteq> [] \<Longrightarrow> list_all ascii_digit xs
     \<Longrightarrow> parse_nat nd xs = Some (foldl (\<lambda>a c. 10 * a + (c - 0x30)) 0 xs)"
  by (cases xs) (simp_all add: parse_nat_def ascii_digit_value parse_digits_ascii)

lemma dec_digits_value: "foldl (\<lambda>a c. 10 * a + (c - 0x30)) 0 (dec_digits n) = n"
  by (induction n rule: dec_digits.induct) (subst dec_digits.simps, simp)

lemma parse_nat_dec_digits: "parse_nat nd (dec_digits n) = Some n"
  by (simp add: parse_nat_ascii dec_digits_nonempty dec_digits_ascii dec_digits_value)

lemma py_strip_id:
  "s \<noteq> [] \<Longrightarrow> \<not> py_isspace (hd s) \<Longrightarrow> \<not> py_isspace (last s) \<Longrightarrow> py_strip s = s"
proof -
  assume a: "s \<noteq> []" "\<not> py_isspace (hd s)" "\<not> py_isspace (last s)"
  then have "dropWhile py_isspace s = s" by (cases s) simp_all
  moreover have "dropWhile py_isspace (rev s) = rev s"
    using a by (cases "rev s") (simp_all add: hd_rev)
  ultimately show ?thesis by (simp add: py_strip_def)
qed

lemma int_strip_id:
  "s \<noteq> [] \<Longrightarrow> \<not> int_space (hd s) \<Longrightarrow> \<not> int_space (last s) \<Longrightarrow> int_strip s = s"
proof -
  assume a: "s \<noteq> []" "\<not> int_space (hd s)" "\<not> int_space (last s)"
  then have "dropWhile int_space s = s" by (cases s) simp_all
  moreover have "dropWhile int_space (rev s) = rev s"
    using a by (cases "rev s") (simp_all add: hd_rev)
  ultimately show ?thesis by (simp add: int_strip_def)
qed

lemma int_strip_separator:
  "py_int nd [0x1F, 0x31] = None \<and> py_int nd [0x20, 0x31] = Some 1
   \<and> py_int nd [0xA0, 0x31, 0x5F, 0x30, 0x0A] = Some 10"
  by (simp add: py_int_def int_strip_def int_space_def py_isspace_def parse_nat_def
      digit_value_def)

lemma py_int_py_str: "py_int nd (py_str (int n)) = Some (int n)"
proof -
  have d: "py_str (int n) = dec_digits n" by (simp add: py_str_def)
  have ne: "dec_digits n \<noteq> []" by (rule dec_digits_nonempty)
  have all: "\<forall>c\<in>set (dec_digits n). ascii_digit c"
    using dec_digits_ascii [of n] by (simp add: list_all_iff)
  have h: "ascii_digit (hd (dec_digits n))" and l: "ascii_digit (last (dec_digits n))"
    using ne all by simp_all
  have s: "int_strip (dec_digits n) = dec_digits n"
    using ne h l by (simp add: int_strip_id ascii_digit_not_space int_space_def)
  obtain c cs where cs: "dec_digits n = c # cs" using ne by (cases "dec_digits n") auto
  with h have "c \<noteq> 0x2D" "c \<noteq> 0x2B" by (auto simp: ascii_digit_def)
  then show ?thesis
    unfolding py_int_def d s using parse_nat_dec_digits [of nd n] by (simp add: cs)
qed

lemma json_segments_lookup:
  "distinct (map fst js) \<Longrightarrow> set ps \<subseteq> set js
     \<Longrightarrow> json_segments js (map fst ps)
         = Inr (map (\<lambda>(k, e). \<lparr>seg_text = original_subtitle e,
                     translated_text = translated_subtitle e,
                     start_time = entry_start_time e, end_time = entry_end_time e\<rparr>) ps)"
proof (induction ps)
  case Nil
  then show ?case by simp
next
  case (Cons p ps)
  obtain k e where p: "p = (k, e)" by (cases p)
  with Cons.prems have m: "map_of js k = Some e" by (simp add: map_of_is_SomeI)
  from Cons have ih: "json_segments js (map fst ps)
         = Inr (map (\<lambda>(k, e). \<lparr>seg_text = original_subtitle e,
                     translated_text = translated_subtitle e,
                     start_time = entry_start_time e, end_time = entry_end_time e\<rparr>) ps)"
    by simp
  show ?case unfolding p by (simp add: m ih del: map_of_eq_Some_iff)
qed

lemma to_json_keys: "map fst (to_json d) = map (\<lambda>i. py_str (int i)) [1..<1 + length d]"
proof -
  have "map fst (to_json d) = map (\<lambda>i. py_str (int i)) (map fst (enumerate 1 d))"
    by (simp only: to_json_def map_map comp_def case_prod_unfold fst_conv)
  then show ?thesis by (simp only: map_fst_enumerate)
qed

lemma to_json_int_keys: "map (int_key nd) (map fst (to_json d)) = map int [1..<1 + length d]"
  by (simp add: to_json_keys int_key_def py_int_py_str comp_def)

lemma to_json_segments:
  "map (\<lambda>(k, e). \<lparr>seg_text = original_subtitle e, translated_text = translated_subtitle e,
                   start_time = entry_start_time e, end_time = entry_end_time e\<rparr>) (to_json d) = d"
proof -
  have "map (\<lambda>(k, e). \<lparr>seg_text = original_subtitle e, translated_text = translated_subtitle e,
                   start_time = entry_start_time e, end_time = entry_end_time e\<rparr>) (to_json d)
        = map snd (enumerate 1 d)"
  proof -
    have r: "\<lparr>seg_text = seg_text r, translated_text = translated_text r,
           start_time = start_time r, end_time = end_time r\<rparr> = r" for r
      by (cases r) simp
    show ?thesis
      by (simp only: to_json_def map_map comp_def case_prod_unfold snd_conv
          subtitle_entry.simps r)
  qed
  then show ?thesis by (simp add: map_snd_enumerate)
qed

lemma from_json_to_json: "from_json nd (to_json d) = Inr (ASRData d)"
proof -
  let ?ks = "map fst (to_json d)"
  have ik: "map (int_key nd) ?ks = map int [1..<1 + length d]" by (rule to_json_int_keys)
  have "distinct (map int [1..<1 + length d])" by (simp add: distinct_map)
  with ik have dist: "distinct ?ks" by (metis distinct_map)
  have "sorted (map int [1..<1 + length d])"
    by (simp only: sorted_map of_nat_le_iff sorted_upt)
  with ik have srt: "sort_key (int_key nd) ?ks = ?ks" by (simp add: sort_key_id_if_sorted)
  have ok: "\<not> list_ex (\<lambda>k. py_int nd k = None) ?ks"
    by (simp add: to_json_keys list_ex_iff py_int_py_str)
  have "json_segments (to_json d) ?ks = Inr d"
    using json_segments_lookup [OF dist, of "to_json d"] by (simp add: to_json_segments)
  with ok srt show ?thesis by (simp add: from_json_def)
qed

text \<open>
  Claim C1, as stated for every document, fails on a document that a mutating method
  has left outside the invariant: after \<open>remove_punctuation\<close> the document built from
  the one segment whose text is U+3002 holds a segment with empty text, which
  \<open>from_json\<close> (through the constructor) drops.
\<close>

theorem json_round_trip_drops_blank:
  "from_json (\<lambda>c. None)
     (to_json (remove_punctuation
        (ASRData [\<lparr>seg_text = [0x3002], translated_text = [], start_time = 0,
                    end_time = 1000\<rparr>])))
   \<noteq> Inr (remove_punctuation
        (ASRData [\<lparr>seg_text = [0x3002], translated_text = [], start_time = 0,
                    end_time = 1000\<rparr>]))"
  by (simp add: from_json_to_json)
    (simp add: ASRData_def keeps_def py_strip_def py_isspace_def remove_punctuation_def
      sub_trailing_punct_def is_punct_def)

text \<open>
  Claim C1, amended. For every document that satisfies the invariant, and so for every
  document as the constructor builds it, \<open>to_json\<close> followed by \<open>from_json\<close> returns
  the same sequence of segments (texts, translated texts, start and end times). For
  any list of segments the result is the list as the constructor filters and sorts it.
\<close>

theorem json_round_trip:
  "(doc_inv d \<longrightarrow> from_json nd (to_json d) = Inr d)
   \<and> from_json nd (to_json (ASRData segments)) = Inr (ASRData segments)
   \<and> from_json nd (to_json d) = Inr (ASRData d)"
  by (simp add: from_json_to_json ASRData_id ASRData_inv)

theorem json_round_trip_witness:
  "doc_inv [seg_of ''c'' 1 2, seg_of ''b'' 5 6, seg_of ''a'' 5 7]
   \<and> from_json (\<lambda>c. None) (to_json [seg_of ''c'' 1 2, seg_of ''b'' 5 6, seg_of ''a'' 5 7])
     = Inr [seg_of ''c'' 1 2, seg_of ''b'' 5 6, seg_of ''a'' 5 7]"
proof -
  have inv: "doc_inv [seg_of ''c'' 1 2, seg_of ''b'' 5 6, seg_of ''a'' 5 7]"
    using ASRData_inv [of "[seg_of ''b'' 5 6, seg_of '' '' 0 1, seg_of ''a'' 5 7, seg_of ''c'' 1 2]"]
    by (simp only: ASRData_example)
  from json_round_trip [of "[seg_of ''c'' 1 2, seg_of ''b'' 5 6, seg_of ''a'' 5 7]" "\<lambda>c. None" "[]"] inv
  show ?thesis by simp
qed

section \<open>Matching ASCII digits\<close>

lemma ascii_is_digit: "ascii_digit c \<Longrightarrow> is_digit nd c"
  by (simp add: ascii_digit_def is_digit_def digit_value_def)

lemma take_digits_ascii:
  "list_all ascii_digit ds \<Longrightarrow> take_digits nd (length ds) (ds @ r) = Some (ds, r)"
  by (induction ds) (simp_all add: ascii_is_digit)

lemma take_digits_2:
  "ascii_digit a \<Longrightarrow> ascii_digit b \<Longrightarrow> take_digits nd 2 (a # b # r) = Some ([a, b], r)"
  by (simp add: numeral_2_eq_2 ascii_is_digit)

lemma take_digits_3:
  "ascii_digit a \<Longrightarrow> ascii_digit b \<Longrightarrow> ascii_digit c
     \<Longrightarrow> take_digits nd 3 (a # b # c # r) = Some ([a, b, c], r)"
  by (simp add: numeral_3_eq_3 ascii_is_digit)

section \<open>The YouTube parser\<close>

lemma word_pairs_index:
  "word_pairs nd ms
     = map (pair_segment nd ms) (filter (\<lambda>i. py_strip (snd (ms ! i)) \<noteq> []) [0..<length ms - 1])"
proof (induction nd ms rule: word_pairs.induct)
  case (1 nd c n rest)
  let ?ms = "c # n # rest"
  let ?X = "[0..<length (n # rest) - 1]"
  let ?hd = "if py_strip (snd c) \<noteq> [] then [pair_segment nd ?ms 0] else []"
  have upt: "[0..<length ?ms - 1] = 0 # map Suc ?X"
    by (simp add: map_Suc_upt upt_conv_Cons del: upt_Suc)
  have tl: "map (pair_segment nd ?ms) (filter (\<lambda>i. py_strip (snd (?ms ! i)) \<noteq> []) (map Suc xs))
      = map (pair_segment nd (n # rest)) (filter (\<lambda>i. py_strip (snd ((n # rest) ! i)) \<noteq> []) xs)" for xs
    by (induction xs) (simp_all add: pair_segment_def)
  have ih: "word_pairs nd (n # rest)
      = map (pair_segment nd (n # rest)) (filter (\<lambda>i. py_strip (snd ((n # rest) ! i)) \<noteq> []) ?X)"
    by (rule "1.IH" [OF refl refl refl])
  have lhs: "word_pairs nd ?ms = ?hd @ word_pairs nd (n # rest)"
    by (simp add: Let_def pair_segment_def)
  have rhs: "map (pair_segment nd ?ms) (filter (\<lambda>i. py_strip (snd (?ms ! i)) \<noteq> []) (0 # map Suc ?X))
      = ?hd @ map (pair_segment nd ?ms) (filter (\<lambda>i. py_strip (snd (?ms ! i)) \<noteq> []) (map Suc ?X))"
    by simp
  show ?case
    by (simp only: upt lhs rhs tl ih)
qed simp_all

lemma word_pairs_length: "length (word_pairs nd ms) \<le> length ms - 1"
proof -
  have "length (word_pairs nd ms)
        = length (filter (\<lambda>i. py_strip (snd (ms ! i)) \<noteq> []) [0..<length ms - 1])"
    by (simp add: word_pairs_index)
  also have "\<dots> \<le> length [0..<length ms - 1]" by (rule length_filter_le)
  finally show ?thesis by simp
qed

lemma word_pairs_full:
  "(length (word_pairs nd ms) = length ms - 1)
     = (\<forall>i < length ms - 1. py_strip (snd (ms ! i)) \<noteq> [])"
proof -
  have "(length (filter P xs) = length xs) = (\<forall>x\<in>set xs. P x)" for P and xs :: "nat list"
    by (metis filter_id_conv length_filter_less nat_neq_iff)
  from this [of "\<lambda>i. py_strip (snd (ms ! i)) \<noteq> []" "[0..<length ms - 1]"]
  show ?thesis by (auto simp: word_pairs_index)
qed

lemma binary64_small: "binary64 1000 = 1000" "binary64 2000 = 2000"
  "binary64 (1001 / 1000) = 2254051613498933 / 2251799813685248"
  "binary64 (281756451687366625 / 281474976710656) = 8804889115230207 / 8796093022208"
  "binary64 (8804889115230207 / 8796093022208) = 8804889115230207 / 8796093022208"
  by code_simp+

lemma floor_below_1001: "\<lfloor>8804889115230207 / 8796093022208 :: rat\<rfloor> = 1000"
  by code_simp

lemma match_hms_ascii:
  "list_all ascii_digit [a, b, c, d, e, f, g, h, i]
     \<Longrightarrow> match_hms nd (a # b # 0x3A # c # d # 0x3A # e # f # 0x2E # g # h # i # r)
         = Some (([a, b], [c, d], [e, f], [g, h, i]), r)"
  by (simp add: match_hms_def take_digits_2 take_digits_3 expect_def ustr_of_def)

lemma match_hms_not_digit:
  "c < 128 \<Longrightarrow> \<not> ascii_digit c \<Longrightarrow> match_hms nd (c # r) = None"
  by (auto simp: match_hms_def numeral_2_eq_2 is_digit_def digit_value_def ascii_digit_def)

lemmas match_defs = match_marker_def match_hms_ascii match_hms_not_digit expect_def ascii_digit_def
  ustr_of_def skip_spaces_def py_isspace_def

lemma example_first_line:
  "match_timestamp_line nd (takeWhile (\<lambda>c. c \<noteq> 0x0A) (py_strip example_block))
     = Some ((ustr_of ''00'', ustr_of ''00'', ustr_of ''00'', ustr_of ''000''),
             (ustr_of ''00'', ustr_of ''00'', ustr_of ''02'', ustr_of ''000''))"
  by (simp add: example_block_def match_timestamp_line_def py_strip_def match_defs)

lemma example_row: "find_c_row example_block = Some (ustr_of ''<c>hi</c><00:00:01.000>'')"
  by (simp add: example_block_def has_c_markup_def ustr_of_def)

lemma example_text:
  "wrap_text (ustr_of ''00'', ustr_of ''00'', ustr_of ''00'', ustr_of ''000'')
     (ustr_of ''00'', ustr_of ''00'', ustr_of ''02'', ustr_of ''000'')
     (remove_c_tags (ustr_of ''<c>hi</c><00:00:01.000>''))
   = ustr_of ''<00:00:00.000>hi<00:00:01.000><00:00:02.000>''"
  by (simp add: wrap_text_def hms_string_def remove_c_tags.simps ustr_of_def)

lemma example_markers:
  "find_markers nd (ustr_of ''<00:00:00.000>hi<00:00:01.000><00:00:02.000>'')
   = [((ustr_of ''00'', ustr_of ''00'', ustr_of ''00'', ustr_of ''000''), ustr_of ''hi''),
      ((ustr_of ''00'', ustr_of ''00'', ustr_of ''01'', ustr_of ''000''), []),
      ((ustr_of ''00'', ustr_of ''00'', ustr_of ''02'', ustr_of ''000''), [])]"
  by (simp add: find_markers.simps match_defs)

lemma example_times:
  "parse_timestamp nd (ustr_of ''00'', ustr_of ''00'', ustr_of ''00'', ustr_of ''000'') = 0"
  "parse_timestamp nd (ustr_of ''00'', ustr_of ''00'', ustr_of ''01'', ustr_of ''000'') = 1000"
  "parse_timestamp nd (ustr_of ''00'', ustr_of ''00'', ustr_of ''02'', ustr_of ''000'') = 2000"
  by (simp_all add: parse_timestamp_def digits_value_def digit_value_def ustr_of_def
      binary64_zero binary64_one binary64_exact_values binary64_small py_trunc_def)

lemma parse_timestamp_truncates:
  "parse_timestamp nd (ustr_of ''00'', ustr_of ''00'', ustr_of ''01'', ustr_of ''001'') = 1000"
  by (simp add: parse_timestamp_def digits_value_def digit_value_def ustr_of_def
      binary64_zero binary64_small py_trunc_def floor_below_1001 Let_def)

text \<open>
  Claim C7, as stated, fails: the block below has a first line that matches and a line
  with \<^verbatim>\<open><c>\<close> markup, its wrapped text has 3 markers, and it yields one segment, not
  two, because nothing but the end marker follows the second marker and the loop
  appends a segment only for a non-empty word.
\<close>

theorem youtube_block_blank_word:
  "match_timestamp_line (\<lambda>c. None) (takeWhile (\<lambda>c. c \<noteq> 0x0A) (py_strip example_block))
     = Some ((ustr_of ''00'', ustr_of ''00'', ustr_of ''00'', ustr_of ''000''),
             (ustr_of ''00'', ustr_of ''00'', ustr_of ''02'', ustr_of ''000''))
   \<and> find_c_row example_block = Some (ustr_of ''<c>hi</c><00:00:01.000>'')
   \<and> length (find_markers (\<lambda>c. None)
        (wrap_text (ustr_of ''00'', ustr_of ''00'', ustr_of ''00'', ustr_of ''000'')
           (ustr_of ''00'', ustr_of ''00'', ustr_of ''02'', ustr_of ''000'')
           (remove_c_tags (ustr_of ''<c>hi</c><00:00:01.000>'')))) = 3
   \<and> youtube_block (\<lambda>c. None) example_block = [seg_of ''hi'' 0 1000]
   \<and> length (youtube_block (\<lambda>c. None) example_block) \<noteq> 3 - 1"
proof -
  have "youtube_block (\<lambda>c. None) example_block = [seg_of ''hi'' 0 1000]"
    by (simp add: youtube_block_def example_first_line example_row example_text
        split_timestamped_text_def example_markers example_times seg_of_def)
      (simp add: py_strip_def py_isspace_def ustr_of_def)
  then show ?thesis
    by (simp add: example_first_line example_row example_text example_markers)
qed

text \<open>
  Claim C7, amended. A block whose first line matches the pattern and which has a line
  with \<^verbatim>\<open><c>\<close> markup yields, in order, one segment for every adjacent pair of markers
  \<open>i\<close>, \<open>i + 1\<close> of the wrapped text whose stripped content (the text after marker
  \<open>i\<close> up to the next \<^verbatim>\<open><\<close>) is not empty: its text is that stripped content and it
  spans from \<open>parse_timestamp\<close> of marker \<open>i\<close> to \<open>parse_timestamp\<close> of marker
  \<open>i + 1\<close>. So a block with \<open>N\<close> markers yields at most \<open>N - 1\<close> segments, and
  exactly \<open>N - 1\<close> when no such content is blank.
\<close>

theorem youtube_block_segments:
  assumes "match_timestamp_line nd (takeWhile (\<lambda>c. c \<noteq> 0x0A) (py_strip block)) = Some (t1, t2)"
    and "find_c_row block = Some row"
    and "ms = find_markers nd (wrap_text t1 t2 (remove_c_tags row))"
  shows "youtube_block nd block
           = map (pair_segment nd ms)
               (filter (\<lambda>i. py_strip (snd (ms ! i)) \<noteq> []) [0..<length ms - 1])
         \<and> length (youtube_block nd block) \<le> length ms - 1
         \<and> ((length (youtube_block nd block) = length ms - 1)
              = (\<forall>i < length ms - 1. py_strip (snd (ms ! i)) \<noteq> []))"
proof -
  have "youtube_block nd block = word_pairs nd ms"
    using assms by (simp add: youtube_block_def split_timestamped_text_def)
  then show ?thesis
    using word_pairs_index [of nd ms] word_pairs_length [of nd ms] word_pairs_full [of nd ms]
    by simp
qed

theorem youtube_block_segments_witness:
  "youtube_block (\<lambda>c. None) two_word_block = [seg_of ''hello'' 0 1000, seg_of ''world'' 1000 2000]
   \<and> length (find_markers (\<lambda>c. None)
        (ustr_of ''<00:00:00.000>hello<00:00:01.000> world<00:00:02.000>'')) = 3"
proof -
  let ?t1 = "(ustr_of ''00'', ustr_of ''00'', ustr_of ''00'', ustr_of ''000'')"
  let ?t2 = "(ustr_of ''00'', ustr_of ''00'', ustr_of ''02'', ustr_of ''000'')"
  let ?ms = "[(?t1, ustr_of ''hello''),
      ((ustr_of ''00'', ustr_of ''00'', ustr_of ''01'', ustr_of ''000''), ustr_of '' world''),
      (?t2, [])]"
  have line: "match_timestamp_line (\<lambda>c. None)
      (takeWhile (\<lambda>c. c \<noteq> 0x0A) (py_strip two_word_block)) = Some (?t1, ?t2)"
    by (simp add: two_word_block_def match_timestamp_line_def py_strip_def match_defs)
  have row: "find_c_row two_word_block = Some (ustr_of ''hello<00:00:01.000><c> world</c>'')"
    by (simp add: two_word_block_def has_c_markup_def ustr_of_def)
  have wrapped: "wrap_text ?t1 ?t2 (remove_c_tags (ustr_of ''hello<00:00:01.000><c> world</c>''))
      = ustr_of ''<00:00:00.000>hello<00:00:01.000> world<00:00:02.000>''"
    by (simp add: wrap_text_def hms_string_def remove_c_tags.simps ustr_of_def)
  have ms: "find_markers (\<lambda>c. None)
      (ustr_of ''<00:00:00.000>hello<00:00:01.000> world<00:00:02.000>'') = ?ms"
    by (simp add: find_markers.simps match_defs)
  have strip: "py_strip (ustr_of ''hello'') = ustr_of ''hello''"
    "py_strip (ustr_of '' world'') = ustr_of ''world''"
    by (simp_all add: py_strip_def py_isspace_def ustr_of_def)
  note t = youtube_block_segments [OF line row, of ?ms]
  have "youtube_block (\<lambda>c. None) two_word_block
      = map (pair_segment (\<lambda>c. None) ?ms)
          (filter (\<lambda>i. py_strip (snd (?ms ! i)) \<noteq> []) [0..<length ?ms - 1])"
    using t by (simp only: wrapped ms)
  also have "\<dots> = [seg_of ''hello'' 0 1000, seg_of ''world'' 1000 2000]"
    by (simp add: pair_segment_def strip example_times seg_of_def upt_rec)
      (simp add: ustr_of_def)
  finally show ?thesis by (simp add: ms)
qed

section \<open>The SRT round trip\<close>

subsection \<open>The timestamp\<close>

lemma dec_digits_small: "n < 10 \<Longrightarrow> dec_digits n = [0x30 + n]"
  by (subst dec_digits.simps) simp

lemma dec_digits_two: "10 \<le> n \<Longrightarrow> n < 100 \<Longrightarrow> dec_digits n = [0x30 + n div 10, 0x30 + n mod 10]"
  by (subst dec_digits.simps) (simp add: dec_digits_small)

lemma dec_digits_three:
  "100 \<le> n \<Longrightarrow> n < 1000
     \<Longrightarrow> dec_digits n = [0x30 + n div 100, 0x30 + n div 10 mod 10, 0x30 + n mod 10]"
  by (subst dec_digits.simps) (simp add: dec_digits_two div_mult2_eq [symmetric])

lemma format_zero_2:
  "0 \<le> i \<Longrightarrow> i < 100 \<Longrightarrow> format_zero 2 i = [0x30 + nat i div 10, 0x30 + nat i mod 10]"
proof -
  assume a: "0 \<le> i" "i < 100"
  show ?thesis
  proof (cases "nat i < 10")
    case True
    with a show ?thesis
      by (simp add: format_zero_def dec_digits_small numeral_2_eq_2)
  next
    case False
    with a show ?thesis
      by (simp add: format_zero_def dec_digits_two)
  qed
qed

lemma format_zero_3:
  "0 \<le> i \<Longrightarrow> i < 1000
     \<Longrightarrow> format_zero 3 i = [0x30 + nat i div 100, 0x30 + nat i div 10 mod 10, 0x30 + nat i mod 10]"
proof -
  assume a: "0 \<le> i" "i < 1000"
  consider "nat i < 10" | "10 \<le> nat i" "nat i < 100" | "100 \<le> nat i" by linarith
  then show ?thesis
  proof cases
    case 1
    with a show ?thesis
      by (simp add: format_zero_def dec_digits_small numeral_3_eq_3)
  next
    case 2
    with a show ?thesis
      by (simp add: format_zero_def dec_digits_two numeral_3_eq_3)
  next
    case 3
    with a show ?thesis
      by (simp add: format_zero_def dec_digits_three)
  qed
qed

lemma digits_value_ascii:
  "list_all ascii_digit ds
     \<Longrightarrow> digits_value nd ds = foldl (\<lambda>a c. 10 * a + (c - 0x30)) 0 ds"
proof -
  have "list_all ascii_digit ds
     \<Longrightarrow> foldl (\<lambda>a c. 10 * a + (case digit_value nd c of Some v \<Rightarrow> v | None \<Rightarrow> 0)) acc ds
         = foldl (\<lambda>a c. 10 * a + (c - 0x30)) acc ds" for acc
    by (induction ds arbitrary: acc) (simp_all add: ascii_digit_value)
  then show "list_all ascii_digit ds \<Longrightarrow> ?thesis" by (simp add: digits_value_def)
qed

lemma digit_char: "n < 10 \<Longrightarrow> ascii_digit (0x30 + n)"
  by (simp add: ascii_digit_def)

lemma two_digits_value:
  "a < 10 \<Longrightarrow> b < 10 \<Longrightarrow> digits_value nd [0x30 + a, 0x30 + b] = 10 * a + b"
  by (simp add: digits_value_ascii digit_char)

lemma three_digits_value:
  "a < 10 \<Longrightarrow> b < 10 \<Longrightarrow> c < 10
     \<Longrightarrow> digits_value nd [0x30 + a, 0x30 + b, 0x30 + c] = 100 * a + 10 * b + c"
  by (simp add: digits_value_ascii digit_char)

lemma match_seconds_two:
  "ascii_digit a \<Longrightarrow> ascii_digit b
     \<Longrightarrow> match_seconds nd (a # b # 0x2C # r) = Some ([a, b], r)"
  by (simp add: match_seconds_def take_digits_2 dot_or_comma_def)

lemma match_srt_stamp_ascii:
  assumes "a < 10" "b < 10" "c < 10" "d < 10" "e < 10" "f < 10" "g < 10" "h < 10" "i < 10"
  shows "match_srt_stamp nd
      ([0x30 + a, 0x30 + b] @ [0x3A] @ [0x30 + c, 0x30 + d] @ [0x3A] @ [0x30 + e, 0x30 + f]
        @ [0x2C] @ [0x30 + g, 0x30 + h, 0x30 + i] @ r)
     = Some (int (10 * a + b) * 3600000 + int (10 * c + d) * 60000 + int (10 * e + f) * 1000
             + int (100 * g + 10 * h + i), r)"
  using assms
  by (simp add: match_srt_stamp_def take_digits_2 take_digits_3 match_seconds_two digit_char
      expect_def ustr_of_def two_digits_value three_digits_value)

lemma ms_to_srt_time_digits:
  assumes "0 \<le> ms" "ms < 360000000"
  shows "ms_to_srt_time ms =
     [0x30 + nat (ms div 3600000) div 10, 0x30 + nat (ms div 3600000) mod 10] @ [0x3A]
     @ [0x30 + nat (ms div 60000 mod 60) div 10, 0x30 + nat (ms div 60000 mod 60) mod 10] @ [0x3A]
     @ [0x30 + nat (ms div 1000 mod 60) div 10, 0x30 + nat (ms div 1000 mod 60) mod 10] @ [0x2C]
     @ [0x30 + nat (ms mod 1000) div 100, 0x30 + nat (ms mod 1000) div 10 mod 10,
        0x30 + nat (ms mod 1000) mod 10]"
proof -
  have h: "ms div 1000 div 60 div 60 = ms div 3600000" "ms div 1000 div 60 = ms div 60000"
    "ms div 60000 div 60 = ms div 3600000"
    by (simp_all add: div_mult2_eq [symmetric])
  have hb: "0 \<le> ms div 3600000" "ms div 3600000 < 100" using assms by auto
  have mb: "0 \<le> ms div 60000 mod 60" "ms div 60000 mod 60 < 100"
    by (simp, smt (verit) pos_mod_bound)
  have sb: "0 \<le> ms div 1000 mod 60" "ms div 1000 mod 60 < 100"
    by (simp, smt (verit) pos_mod_bound)
  have lb: "0 \<le> ms mod 1000" "ms mod 1000 < 1000" by simp_all
  show ?thesis
    unfolding ms_to_srt_time_def Let_def h
    by (simp only: format_zero_2 [OF hb] format_zero_2 [OF mb] format_zero_2 [OF sb]
        format_zero_3 [OF lb] ustr_of_def) simp
qed

lemma split_two_digits: "n < 100 \<Longrightarrow> 10 * (n div 10) + n mod 10 = (n::nat) \<and> n div 10 < 10 \<and> n mod 10 < 10"
  by (simp add: less_mult_imp_div_less)

lemma split_three_digits:
  "n < 1000 \<Longrightarrow> 100 * (n div 100) + 10 * (n div 10 mod 10) + n mod 10 = (n::nat)
     \<and> n div 100 < 10 \<and> n div 10 mod 10 < 10 \<and> n mod 10 < 10"
proof -
  assume a: "n < 1000"
  have "n div 10 = 10 * (n div 10 div 10) + n div 10 mod 10" by simp
  then have "n div 10 = 10 * (n div 100) + n div 10 mod 10" by (simp add: div_mult2_eq [symmetric])
  moreover have "n = 10 * (n div 10) + n mod 10" by simp
  ultimately have "100 * (n div 100) + 10 * (n div 10 mod 10) + n mod 10 = n" by linarith
  moreover have "n div 100 < 10" using a by (simp add: less_mult_imp_div_less)
  ultimately show ?thesis by simp
qed

lemma combine_parts:
  "ms = 1000 * q1 + r1 \<Longrightarrow> q1 = 60 * q2 + r2 \<Longrightarrow> q2 = 60 * q3 + r3
     \<Longrightarrow> q3 * 3600000 + r3 * 60000 + r2 * 1000 + r1 = (ms::int)"
  by simp

lemma nat_below: "x < a \<Longrightarrow> a \<le> int b \<Longrightarrow> 0 < b \<Longrightarrow> nat x < b"
  by linarith

lemma ms_parts:
  assumes "0 \<le> (ms::int)"
  shows "int (nat (ms div 3600000)) * 3600000 + int (nat (ms div 60000 mod 60)) * 60000
       + int (nat (ms div 1000 mod 60)) * 1000 + int (nat (ms mod 1000)) = ms"
proof -
  have a: "ms = 1000 * (ms div 1000) + ms mod 1000" by simp
  have d: "ms div 1000 div 60 = ms div 60000" "ms div 60000 div 60 = ms div 3600000"
    by (simp_all add: div_mult2_eq [symmetric])
  have b: "ms div 1000 = 60 * (ms div 60000) + ms div 1000 mod 60"
    by (rule mult_div_mod_eq [of 60 "ms div 1000", unfolded d, symmetric])
  have c: "ms div 60000 = 60 * (ms div 3600000) + ms div 60000 mod 60"
    by (rule mult_div_mod_eq [of 60 "ms div 60000", unfolded d, symmetric])
  have p: "0 \<le> ms div 3600000" "0 \<le> ms div 60000 mod 60" "0 \<le> ms div 1000 mod 60"
    "0 \<le> ms mod 1000"
    using assms by (simp_all add: pos_imp_zdiv_nonneg_iff)
  have "ms div 3600000 * 3600000 + (ms div 60000 mod 60) * 60000
       + (ms div 1000 mod 60) * 1000 + ms mod 1000 = ms"
    by (rule combine_parts [OF a b c])
  then show ?thesis by (simp only: nat_0_le [OF p(1)] nat_0_le [OF p(2)] nat_0_le [OF p(3)] nat_0_le [OF p(4)])
qed

lemma ms_bounds:
  assumes "0 \<le> (ms::int)" "ms < 360000000"
  shows "nat (ms div 3600000) < 100" "nat (ms div 60000 mod 60) < 100"
    "nat (ms div 1000 mod 60) < 100" "nat (ms mod 1000) < 1000"
proof -
  show "nat (ms div 3600000) < 100" using assms by simp
  have "ms div 60000 mod 60 < 60" by simp
  then show "nat (ms div 60000 mod 60) < 100" by (rule nat_below) simp_all
  have "ms div 1000 mod 60 < 60" by simp
  then show "nat (ms div 1000 mod 60) < 100" by (rule nat_below) simp_all
  have "ms mod 1000 < 1000" by simp
  then show "nat (ms mod 1000) < 1000" by (rule nat_below) simp_all
qed

lemma match_srt_stamp_round_trip:
  assumes "0 \<le> ms" "ms < 360000000"
  shows "match_srt_stamp nd (ms_to_srt_time ms @ r) = Some (ms, r)"
proof -
  define hh mm ss ll where "hh = nat (ms div 3600000)" and "mm = nat (ms div 60000 mod 60)"
    and "ss = nat (ms div 1000 mod 60)" and "ll = nat (ms mod 1000)"
  have b: "hh < 100" "mm < 100" "ss < 100" "ll < 1000"
    unfolding hh_def mm_def ss_def ll_def by (rule ms_bounds [OF assms])+
  note h = split_two_digits [OF b(1)] and m = split_two_digits [OF b(2)]
    and s = split_two_digits [OF b(3)] and l = split_three_digits [OF b(4)]
  have hd: "hh div 10 < 10" "hh mod 10 < 10" using h by blast+
  have md: "mm div 10 < 10" "mm mod 10 < 10" using m by blast+
  have sd: "ss div 10 < 10" "ss mod 10 < 10" using s by blast+
  have ld: "ll div 100 < 10" "ll div 10 mod 10 < 10" "ll mod 10 < 10" using l by blast+
  have parts: "int hh * 3600000 + int mm * 60000 + int ss * 1000 + int ll = ms"
    unfolding hh_def mm_def ss_def ll_def by (rule ms_parts [OF assms(1)])
  have "match_srt_stamp nd (ms_to_srt_time ms @ r)
      = Some (int (10 * (hh div 10) + hh mod 10) * 3600000
              + int (10 * (mm div 10) + mm mod 10) * 60000
              + int (10 * (ss div 10) + ss mod 10) * 1000
              + int (100 * (ll div 100) + 10 * (ll div 10 mod 10) + ll mod 10), r)"
    unfolding ms_to_srt_time_digits [OF assms] hh_def [symmetric] mm_def [symmetric]
      ss_def [symmetric] ll_def [symmetric]
    using match_srt_stamp_ascii [OF hd(1) hd(2) md(1) md(2) sd(1) sd(2) ld(1) ld(2) ld(3), of nd r]
    by (simp only: append.simps append_assoc)
  also have "\<dots> = Some (ms, r)"
    by (simp only: conjunct1 [OF h] conjunct1 [OF m] conjunct1 [OF s] conjunct1 [OF l] parts)
  finally show ?thesis .
qed

lemma srt_time_pattern_round_trip:
  assumes "0 \<le> start_time sg" "start_time sg < 360000000"
    "0 \<le> end_time sg" "end_time sg < 360000000"
  shows "srt_time_pattern nd (to_srt_ts sg) = Some (start_time sg, end_time sg)"
proof -
  have a: "match_srt_stamp nd (to_srt_ts sg)
      = Some (start_time sg, ustr_of '' --> '' @ ms_to_srt_time (end_time sg))"
    unfolding to_srt_ts_def by (rule match_srt_stamp_round_trip [OF assms(1,2)])
  have b: "match_srt_stamp nd (ms_to_srt_time (end_time sg)) = Some (end_time sg, [])"
    using match_srt_stamp_round_trip [OF assms(3,4), of nd "[]"] by simp
  have c: "one_space (ustr_of '' --> '' @ r) = Some (ustr_of ''--> '' @ r)" for r
    by (simp add: one_space_def ustr_of_def py_isspace_def)
  have d: "expect (ustr_of ''-->'') (ustr_of ''--> '' @ r) = Some (ustr_of '' '' @ r)" for r
    by (simp add: expect_def ustr_of_def)
  have e: "one_space (ustr_of '' '' @ r) = Some r" for r
    by (simp add: one_space_def ustr_of_def py_isspace_def)
  show ?thesis
    unfolding srt_time_pattern_def by (simp only: a b c d e bind.bind_lunit prod.case)
qed

subsection \<open>Splitting the file into blocks\<close>

lemma space_10: "py_isspace 0x0A"
  by (simp add: py_isspace_def)

lemma rstrip_parts: "py_rstrip s @ trailing_space s = s"
  unfolding py_rstrip_def trailing_space_def
  by (metis rev_append rev_rev_ident takeWhile_dropWhile_id)

lemma trailing_space_all: "list_all py_isspace (trailing_space s)"
  by (auto simp: trailing_space_def list_all_iff dest: set_takeWhileD)

lemma rstrip_space: "list_all py_isspace w \<Longrightarrow> py_rstrip (a @ w) = py_rstrip a"
proof -
  assume "list_all py_isspace w"
  then have "dropWhile py_isspace (rev w @ rev a) = dropWhile py_isspace (rev a)"
    by (intro dropWhile_append2) (simp add: list_all_iff)
  then show ?thesis by (simp add: py_rstrip_def)
qed

lemma rstrip_append:
  "\<exists>c\<in>set b. \<not> py_isspace c \<Longrightarrow> py_rstrip (a @ b) = a @ py_rstrip b"
proof -
  assume "\<exists>c\<in>set b. \<not> py_isspace c"
  then obtain c where c: "c \<in> set (rev b)" "\<not> py_isspace c" by auto
  have "dropWhile py_isspace (rev b @ rev a) = dropWhile py_isspace (rev b) @ rev a"
    using c by (rule dropWhile_append1 [of c "rev b" py_isspace "rev a"])
  then show ?thesis by (simp add: py_rstrip_def)
qed

lemma rstrip_nonblank: "\<exists>c\<in>set s. \<not> py_isspace c \<Longrightarrow> \<exists>c\<in>set (py_rstrip s). \<not> py_isspace c"
proof -
  assume "\<exists>c\<in>set s. \<not> py_isspace c"
  then obtain c where c: "c \<in> set s" "\<not> py_isspace c" by blast
  have "set s = set (py_rstrip s) \<union> set (trailing_space s)"
    using rstrip_parts [of s] by (metis set_append)
  moreover have "c \<notin> set (trailing_space s)"
    using trailing_space_all [of s] c(2) by (auto simp: list_all_iff)
  ultimately show ?thesis using c by auto
qed

lemma strip_rstrip: "s \<noteq> [] \<Longrightarrow> \<not> py_isspace (hd s) \<Longrightarrow> py_strip s = py_rstrip s"
  by (cases s) (simp_all add: py_strip_def py_rstrip_def)

lemma blank_sep_len_none: "no_blank_line (c # cs) \<Longrightarrow> blank_sep_len (c # cs @ r) = 0"
proof (cases "c = 0x0A")
  case False
  then show ?thesis by (simp add: blank_sep_len_def)
next
  case True
  assume "no_blank_line (c # cs)"
  with True have a: "dropWhile py_isspace cs \<noteq> []" and b: "0x0A \<notin> set (takeWhile py_isspace cs)"
    by simp_all
  from a obtain x where "x \<in> set cs" "\<not> py_isspace x"
    by (auto simp: dropWhile_eq_Nil_conv)
  then have "takeWhile py_isspace (cs @ r) = takeWhile py_isspace cs"
    by (rule takeWhile_append1)
  with b show ?thesis by (simp add: blank_sep_len_def)
qed

lemma split_blank_line: "no_blank_line b \<Longrightarrow> split_blank acc (b @ r) = split_blank (acc @ b) r"
proof (induction b arbitrary: acc)
  case Nil
  show ?case by simp
next
  case (Cons c cs)
  have z: "blank_sep_len (c # cs @ r) = 0" by (rule blank_sep_len_none [OF Cons.prems])
  have t: "no_blank_line cs" using Cons.prems by simp
  have "split_blank acc ((c # cs) @ r) = split_blank (acc @ [c]) (cs @ r)"
    by (subst split_blank.simps) (simp add: z)
  also have "\<dots> = split_blank ((acc @ [c]) @ cs) r" by (rule Cons.IH [OF t])
  finally show ?case by simp
qed

lemma split_blank_Nil: "split_blank acc [] = [acc]"
  by (subst split_blank.simps) simp

lemma no_blank_line_plain: "0x0A \<notin> set u \<Longrightarrow> no_blank_line u"
  by (induction u) auto

lemma split_blank_sep:
  assumes "list_all py_isspace q" "last (0x0A # q) = 0x0A" "q \<noteq> []" "\<not> py_isspace c"
  shows "split_blank acc (0x0A # q @ c # r) = acc # split_blank [] (c # r)"
proof -
  have w: "takeWhile py_isspace (q @ c # r) = q"
    using assms(1,4) by (simp add: takeWhile_tail list_all_iff)
  have l: "last q = 0x0A" using assms(2,3) by simp
  then have m: "0x0A \<in> set q" using assms(3) last_in_set by metis
  have "hd (rev q) = 0x0A" using l assms(3) by (simp add: hd_rev)
  then have d: "dropWhile (\<lambda>x. x \<noteq> 0x0A) (rev q) = rev q"
    using assms(3) by (cases "rev q") simp_all
  have "blank_sep_len (0x0A # q @ c # r) = Suc (length q)"
    by (simp add: blank_sep_len_def w m d)
  then show ?thesis by (subst split_blank.simps) simp
qed

lemma split_blank_block:
  assumes "no_blank_line z" "list_all py_isspace ws" "\<not> py_isspace c"
  shows "split_blank acc (z @ ws @ [0x0A, 0x0A] @ c # r)
       = (acc @ z @ takeWhile (\<lambda>x. x \<noteq> 0x0A) ws) # split_blank [] (c # r)"
proof -
  define u v where "u = takeWhile (\<lambda>x. x \<noteq> 0x0A) ws" and "v = dropWhile (\<lambda>x. x \<noteq> 0x0A) ws"
  have ws: "ws = u @ v" by (simp add: u_def v_def)
  have u: "no_blank_line u"
    unfolding u_def by (rule no_blank_line_plain) (auto dest: set_takeWhileD)
  have vs: "list_all py_isspace v"
    using assms(2) by (auto simp: v_def list_all_iff dest: set_dropWhileD)
  obtain q where q: "v @ [0x0A, 0x0A] = 0x0A # q" "list_all py_isspace q" "q \<noteq> []"
    "last (0x0A # q) = 0x0A"
  proof (cases v)
    case Nil
    show ?thesis by (rule that [of "[0x0A]"]) (simp_all add: Nil space_10)
  next
    case (Cons x xs)
    have ne: "dropWhile (\<lambda>x. x \<noteq> 0x0A) ws \<noteq> []" using Cons by (simp add: v_def)
    have "\<not> hd v \<noteq> 0x0A" unfolding v_def by (rule hd_dropWhile [OF ne])
    then have "x = 0x0A" by (simp add: Cons)
    with Cons vs show ?thesis
      by (intro that [of "xs @ [0x0A, 0x0A]"]) (simp_all add: space_10)
  qed
  have "split_blank acc (z @ ws @ [0x0A, 0x0A] @ c # r)
      = split_blank acc (z @ (u @ (v @ [0x0A, 0x0A]) @ c # r))"
    by (simp add: ws)
  also have "\<dots> = split_blank (acc @ z) (u @ (v @ [0x0A, 0x0A]) @ c # r)"
    by (rule split_blank_line [OF assms(1)])
  also have "\<dots> = split_blank ((acc @ z) @ u) ((v @ [0x0A, 0x0A]) @ c # r)"
    by (rule split_blank_line [OF u])
  also have "\<dots> = split_blank ((acc @ z) @ u) (0x0A # q @ c # r)"
    by (simp only: q(1) append_Cons)
  also have "\<dots> = ((acc @ z) @ u) # split_blank [] (c # r)"
    by (rule split_blank_sep [OF q(2) q(4) q(3) assms(3)])
  finally show ?thesis by (simp add: u_def)
qed

lemma blank_sep_len_start: "blank_sep_len s \<noteq> 0 \<Longrightarrow> s \<noteq> [] \<and> hd s = 0x0A"
  by (cases s) (auto simp: blank_sep_len_def Let_def split: if_splits)

lemma blank_sep_len_append:
  assumes "s \<noteq> []" "\<not> py_isspace (last s)"
  shows "blank_sep_len (s @ r) = blank_sep_len s"
proof (cases s)
  case Nil
  with assms show ?thesis by simp
next
  case (Cons c cs)
  show ?thesis
  proof (cases "c = 0x0A")
    case False
    then show ?thesis by (simp add: Cons blank_sep_len_def)
  next
    case True
    have cs: "cs \<noteq> []" using assms Cons True by (auto simp: space_10)
    then have "last cs \<in> set cs" "\<not> py_isspace (last cs)" using assms Cons by simp_all
    then have "takeWhile py_isspace (cs @ r) = takeWhile py_isspace cs"
      by (rule takeWhile_append1)
    then show ?thesis by (simp add: Cons blank_sep_len_def)
  qed
qed

lemma split_blank_step:
  "s \<noteq> [] \<Longrightarrow> blank_sep_len s = 0 \<Longrightarrow> split_blank acc s = split_blank (acc @ [hd s]) (tl s)"
  "s \<noteq> [] \<Longrightarrow> blank_sep_len s \<noteq> 0
     \<Longrightarrow> split_blank acc s = acc # split_blank [] (drop (blank_sep_len s) s)"
  by (subst split_blank.simps, simp)+

lemma split_blank_acc:
  "split_blank acc s = (acc @ hd (split_blank [] s)) # tl (split_blank [] s)"
proof (induction s arbitrary: acc rule: length_induct)
  case (1 s)
  have IH: "split_blank a ys = (a @ hd (split_blank [] ys)) # tl (split_blank [] ys)"
    if "length ys < length s" for ys a
    using 1 that by blast
  show ?case
  proof (cases "s = []")
    case True
    then show ?thesis by (simp add: split_blank_Nil)
  next
    case ne: False
    then have lt: "length (tl s) < length s" by (cases s) simp_all
    show ?thesis
    proof (cases "blank_sep_len s = 0")
      case True
      have a1: "split_blank acc s
          = ((acc @ [hd s]) @ hd (split_blank [] (tl s))) # tl (split_blank [] (tl s))"
        unfolding split_blank_step(1) [OF ne True] by (rule IH [OF lt])
      have a2: "split_blank [] s
          = ([hd s] @ hd (split_blank [] (tl s))) # tl (split_blank [] (tl s))"
        unfolding split_blank_step(1) [OF ne True] using IH [OF lt, of "[hd s]"] by simp
      show ?thesis unfolding a1 a2 by simp
    next
      case False
      show ?thesis unfolding split_blank_step(2) [OF ne False] by simp
    qed
  qed
qed

lemma split_blank_nonempty: "split_blank acc s \<noteq> []"
  by (subst split_blank_acc) simp

lemma split_blank_append:
  "s = [] \<or> \<not> py_isspace (last s)
     \<Longrightarrow> split_blank acc (s @ r)
         = butlast (split_blank acc s) @ split_blank (last (split_blank acc s)) r"
proof (induction s arbitrary: acc rule: length_induct)
  case (1 s)
  have IH: "split_blank a (ys @ r)
      = butlast (split_blank a ys) @ split_blank (last (split_blank a ys)) r"
    if "length ys < length s" "ys = [] \<or> \<not> py_isspace (last ys)" for ys a
    using 1(1) that by blast
  show ?case
  proof (cases "s = []")
    case True
    then show ?thesis by (simp add: split_blank_Nil)
  next
    case ne: False
    then have l: "\<not> py_isspace (last s)" using 1(2) by simp
    have lt: "length (tl s) < length s" using ne by (cases s) simp_all
    have b: "blank_sep_len (s @ r) = blank_sep_len s" by (rule blank_sep_len_append [OF ne l])
    have ne2: "s @ r \<noteq> []" using ne by simp
    have hs: "hd (s @ r) = hd s" "tl (s @ r) = tl s @ r" using ne by simp_all
    show ?thesis
    proof (cases "blank_sep_len s = 0")
      case True
      have t: "tl s = [] \<or> \<not> py_isspace (last (tl s))"
        using ne l by (cases s) (auto split: if_splits)
      have z: "blank_sep_len (s @ r) = 0" using b True by simp
      have "split_blank acc (s @ r) = split_blank (acc @ [hd s]) (tl s @ r)"
        using split_blank_step(1) [OF ne2 z, of acc] by (simp only: hs)
      also have "\<dots> = butlast (split_blank (acc @ [hd s]) (tl s))
          @ split_blank (last (split_blank (acc @ [hd s]) (tl s))) r"
        by (rule IH [OF lt t])
      finally show ?thesis by (simp only: split_blank_step(1) [OF ne True])
    next
      case False
      let ?n = "blank_sep_len s"
      have le: "?n \<le> length s" by (rule blank_sep_len_le)
      have pos: "0 < ?n" using False by simp
      have lt2: "length (drop ?n s) < length s" using ne pos by simp
      have d: "drop ?n s = [] \<or> \<not> py_isspace (last (drop ?n s))" using l by auto
      have nz: "blank_sep_len (s @ r) \<noteq> 0" using b False by simp
      have dr: "drop (blank_sep_len (s @ r)) (s @ r) = drop ?n s @ r" using le b by simp
      have "split_blank acc (s @ r) = acc # split_blank [] (drop ?n s @ r)"
        using split_blank_step(2) [OF ne2 nz, of acc] by (simp only: dr)
      also have "split_blank [] (drop ?n s @ r)
          = butlast (split_blank [] (drop ?n s))
            @ split_blank (last (split_blank [] (drop ?n s))) r"
        by (rule IH [OF lt2 d])
      finally have e: "split_blank acc (s @ r)
          = acc # butlast (split_blank [] (drop ?n s))
            @ split_blank (last (split_blank [] (drop ?n s))) r" .
      have f: "split_blank acc s = acc # split_blank [] (drop ?n s)"
        by (rule split_blank_step(2) [OF ne False])
      show ?thesis unfolding e f by (simp add: split_blank_nonempty)
    qed
  qed
qed

lemma split_blank_first:
  "\<exists>y. acc @ s = hd (split_blank acc s) @ y \<and> (y = [] \<or> hd y = 0x0A)"
proof (induction s arbitrary: acc rule: length_induct)
  case (1 s)
  have IH: "\<exists>y. a @ ys = hd (split_blank a ys) @ y \<and> (y = [] \<or> hd y = 0x0A)"
    if "length ys < length s" for ys a
    using 1 that by blast
  show ?case
  proof (cases "s = []")
    case True
    then show ?thesis by (simp add: split_blank_Nil)
  next
    case ne: False
    then have lt: "length (tl s) < length s" by (cases s) simp_all
    have hs: "acc @ s = (acc @ [hd s]) @ tl s" using ne by simp
    show ?thesis
    proof (cases "blank_sep_len s = 0")
      case True
      show ?thesis
        unfolding split_blank_step(1) [OF ne True] hs by (rule IH [OF lt])
    next
      case False
      have "hd s = 0x0A" using blank_sep_len_start [OF False] by simp
      then show ?thesis unfolding split_blank_step(2) [OF ne False] by simp
    qed
  qed
qed

subsection \<open>The lines of a block\<close>

lemma linebreak_10: "is_linebreak 0x0A"
  by (simp add: is_linebreak_def)

lemma ascii_digit_not_linebreak: "ascii_digit c \<Longrightarrow> \<not> is_linebreak c"
  by (auto simp: ascii_digit_def is_linebreak_def)

lemma digits_plain:
  assumes "ds \<noteq> []" "list_all ascii_digit ds"
  shows "plain_line ds"
proof -
  have "ascii_digit (hd ds)" using assms by (cases ds) simp_all
  then have "\<not> py_isspace (hd ds)" by (rule ascii_digit_not_space)
  moreover have "list_all (\<lambda>c. \<not> is_linebreak c) ds"
    using assms(2) by (simp add: list_all_iff ascii_digit_not_linebreak)
  ultimately show ?thesis using assms(1) by (simp add: plain_line_def)
qed

lemma py_str_plain: "plain_line (py_str (int n))"
  by (simp add: py_str_def digits_plain dec_digits_nonempty dec_digits_ascii)

lemma format_zero_digits:
  "0 \<le> i \<Longrightarrow> format_zero w i \<noteq> [] \<and> list_all ascii_digit (format_zero w i)"
  using dec_digits_range [of "nat i"]
  by (auto simp: format_zero_def Let_def dec_digits_nonempty list_all_iff ascii_digit_def)

lemma stamp_char_not_linebreak: "stamp_char c \<Longrightarrow> \<not> is_linebreak c"
  by (auto simp: stamp_char_def ascii_digit_def is_linebreak_def)

lemma digits_stamp: "list_all ascii_digit ds \<Longrightarrow> list_all stamp_char ds"
  by (simp add: list_all_iff stamp_char_def)

lemma ms_to_srt_time_chars:
  assumes "0 \<le> ms"
  shows "ms_to_srt_time ms \<noteq> []" "ascii_digit (hd (ms_to_srt_time ms))"
    "list_all stamp_char (ms_to_srt_time ms)"
proof -
  have p: "0 \<le> ms div 1000 div 60 div 60" "0 \<le> ms div 1000 div 60 mod 60"
    "0 \<le> ms div 1000 mod 60" "0 \<le> ms mod 1000"
    using assms by (simp_all add: pos_imp_zdiv_nonneg_iff)
  note f = format_zero_digits [OF p(1), of 2] format_zero_digits [OF p(2), of 2]
    format_zero_digits [OF p(3), of 2] format_zero_digits [OF p(4), of 3]
  show "ms_to_srt_time ms \<noteq> []" using f by (simp add: ms_to_srt_time_def Let_def)
  have "ascii_digit (hd (format_zero 2 (ms div 1000 div 60 div 60)))"
    using f(1) by (cases "format_zero 2 (ms div 1000 div 60 div 60)") simp_all
  then show "ascii_digit (hd (ms_to_srt_time ms))"
    using f(1) by (simp add: ms_to_srt_time_def Let_def)
  show "list_all stamp_char (ms_to_srt_time ms)"
    using f by (simp add: ms_to_srt_time_def Let_def digits_stamp ustr_of_def stamp_char_def)
qed

lemma to_srt_ts_plain:
  assumes "0 \<le> start_time sg" "0 \<le> end_time sg"
  shows "plain_line (to_srt_ts sg)"
proof -
  note a = ms_to_srt_time_chars [OF assms(1)] and b = ms_to_srt_time_chars [OF assms(2)]
  have "list_all stamp_char (to_srt_ts sg)"
    using a(3) b(3) by (simp add: to_srt_ts_def ustr_of_def stamp_char_def)
  then have "list_all (\<lambda>c. \<not> is_linebreak c) (to_srt_ts sg)"
    by (simp add: list_all_iff stamp_char_not_linebreak)
  moreover have "hd (to_srt_ts sg) = hd (ms_to_srt_time (start_time sg))"
    using a(1) by (simp add: to_srt_ts_def)
  then have "\<not> py_isspace (hd (to_srt_ts sg))"
    using a(2) by (simp add: ascii_digit_not_space)
  moreover have "to_srt_ts sg \<noteq> []" using a(1) by (simp add: to_srt_ts_def)
  ultimately show ?thesis by (simp add: plain_line_def)
qed

lemma splitlines_acc_line:
  "list_all (\<lambda>c. \<not> is_linebreak c) a
     \<Longrightarrow> splitlines_acc acc (a @ r) = splitlines_acc (acc @ a) r"
  by (induction a arbitrary: acc) simp_all

lemma splitlines_acc_nl:
  "r \<noteq> [] \<Longrightarrow> splitlines_acc acc (0x0A # r) = acc # splitlines_acc [] r"
  by (cases r) (simp_all add: linebreak_10)

lemma no_blank_line_after:
  "list_all (\<lambda>c. \<not> is_linebreak c) a \<Longrightarrow> no_blank_line b \<Longrightarrow> dropWhile py_isspace b \<noteq> []
     \<Longrightarrow> 0x0A \<notin> set (takeWhile py_isspace b) \<Longrightarrow> no_blank_line (a @ 0x0A # b)"
  by (induction a) (auto simp: linebreak_10)

lemma srt_head_no_blank_line:
  assumes "0 \<le> start_time sg" "0 \<le> end_time sg" "no_blank_line v"
    "dropWhile py_isspace v \<noteq> []" "0x0A \<notin> set (takeWhile py_isspace v)"
  shows "no_blank_line (srt_head n sg @ v)"
proof -
  note ts = to_srt_ts_plain [OF assms(1,2), unfolded plain_line_def]
  note ix = py_str_plain [of n, unfolded plain_line_def]
  have tsl: "list_all (\<lambda>c. \<not> is_linebreak c) (to_srt_ts sg)" using ts by simp
  have ixl: "list_all (\<lambda>c. \<not> is_linebreak c) (py_str (int n))" using ix by simp
  have a: "no_blank_line (to_srt_ts sg @ 0x0A # v)"
    by (rule no_blank_line_after [OF tsl assms(3-5)])
  have b: "dropWhile py_isspace (to_srt_ts sg @ 0x0A # v) \<noteq> []"
    "0x0A \<notin> set (takeWhile py_isspace (to_srt_ts sg @ 0x0A # v))"
    using ts by (cases "to_srt_ts sg"; simp)+
  have "no_blank_line (py_str (int n) @ 0x0A # to_srt_ts sg @ 0x0A # v)"
    by (rule no_blank_line_after [OF ixl a b])
  then show ?thesis by (simp add: srt_head_def)
qed

lemma srt_head_start: "srt_head n sg @ v \<noteq> [] \<and> \<not> py_isspace (hd (srt_head n sg @ v))"
  using py_str_plain [of n] by (simp add: srt_head_def plain_line_def)

lemma splitlines_head:
  assumes "0 \<le> start_time sg" "0 \<le> end_time sg" "v \<noteq> []"
  shows "splitlines (srt_head n sg @ v) = py_str (int n) # to_srt_ts sg # splitlines v"
proof -
  note ts = to_srt_ts_plain [OF assms(1,2), unfolded plain_line_def]
  note ix = py_str_plain [of n, unfolded plain_line_def]
  have "splitlines_acc [] (py_str (int n) @ 0x0A # to_srt_ts sg @ 0x0A # v)
      = splitlines_acc (py_str (int n)) (0x0A # to_srt_ts sg @ 0x0A # v)"
    using splitlines_acc_line [of "py_str (int n)" "[]"] ix by simp
  also have "\<dots> = py_str (int n) # splitlines_acc [] (to_srt_ts sg @ 0x0A # v)"
    by (rule splitlines_acc_nl) simp
  also have "splitlines_acc [] (to_srt_ts sg @ 0x0A # v) = splitlines_acc (to_srt_ts sg) (0x0A # v)"
    using splitlines_acc_line [of "to_srt_ts sg" "[]"] ts by simp
  also have "\<dots> = to_srt_ts sg # splitlines_acc [] v"
    by (rule splitlines_acc_nl [OF assms(3)])
  finally show ?thesis by (simp add: splitlines_def srt_head_def)
qed

lemma first_line_plain: "list_all (\<lambda>c. \<not> is_linebreak c) (first_line v)"
  by (auto simp: first_line_def list_all_iff dest: set_takeWhileD)

lemma splitlines_first:
  assumes "first_line v \<noteq> []"
  shows "\<exists>ls. splitlines v = first_line v # ls"
proof -
  define r where "r = dropWhile (\<lambda>c. \<not> is_linebreak c) v"
  have v: "v = first_line v @ r" by (simp add: first_line_def r_def)
  have "splitlines_acc [] (first_line v @ r) = splitlines_acc (first_line v) r"
    using splitlines_acc_line [OF first_line_plain, of "[]" v r] by simp
  moreover have "\<exists>ls. splitlines_acc (first_line v) r = first_line v # ls"
  proof (cases r)
    case Nil
    then show ?thesis using assms by simp
  next
    case (Cons c cs)
    have ne: "dropWhile (\<lambda>c. \<not> is_linebreak c) v \<noteq> []" using Cons by (simp add: r_def)
    have "\<not> \<not> is_linebreak (hd r)" unfolding r_def by (rule hd_dropWhile [OF ne])
    then have "is_linebreak c" by (simp add: Cons)
    then show ?thesis by (cases cs) (simp_all add: Cons)
  qed
  ultimately show ?thesis unfolding splitlines_def by (subst v) simp
qed

lemma first_line_cut:
  assumes "first_line (v @ y) = t" "y = [] \<or> is_linebreak (hd y)"
  shows "first_line v = t"
proof (cases "\<exists>c\<in>set v. is_linebreak c")
  case True
  then obtain c where "c \<in> set v" "\<not> \<not> is_linebreak c" by auto
  then have "takeWhile (\<lambda>c. \<not> is_linebreak c) (v @ y) = takeWhile (\<lambda>c. \<not> is_linebreak c) v"
    by (rule takeWhile_append1)
  with assms(1) show ?thesis by (simp add: first_line_def)
next
  case False
  then have "takeWhile (\<lambda>c. \<not> is_linebreak c) (v @ y)
      = v @ takeWhile (\<lambda>c. \<not> is_linebreak c) y"
    by (intro takeWhile_append2) auto
  moreover have "takeWhile (\<lambda>c. \<not> is_linebreak c) y = []"
    using assms(2) by (cases y) auto
  moreover have "takeWhile (\<lambda>c. \<not> is_linebreak c) v = v"
    using False by (simp add: takeWhile_eq_all_conv)
  ultimately show ?thesis using assms(1) by (simp add: first_line_def)
qed

lemma srt_block_segments_read:
  assumes "0 \<le> start_time sg" "start_time sg < 360000000"
    "0 \<le> end_time sg" "end_time sg < 360000000"
    "first_line v = seg_text sg" "seg_text sg \<noteq> []"
  shows "srt_block_segments nd False (srt_head n sg @ v) = [without_translation sg]"
proof -
  have t: "srt_time_pattern nd (to_srt_ts sg) = Some (start_time sg, end_time sg)"
    by (rule srt_time_pattern_round_trip [OF assms(1-4)])
  have v: "v \<noteq> []" using assms(5,6) by (auto simp: first_line_def)
  obtain ls where ls: "splitlines v = seg_text sg # ls"
    using splitlines_first [of v] assms(5,6) by auto
  show ?thesis
    unfolding srt_block_segments_def splitlines_head [OF assms(1,3) v] ls
    by (simp add: t without_translation_def)
qed

subsection \<open>From the file back to the document\<close>

lemma to_srt_file: "to_srt layout d = srt_file layout 1 d"
  by (simp add: to_srt_def srt_file_def)

lemma srt_file_one: "srt_file layout k [sg] = srt_head k sg @ layout_text layout sg @ [0x0A]"
  by (simp add: srt_file_def srt_block_def srt_head_def)

lemma srt_file_more:
  "srt_file layout k (sg # sg' # r)
     = srt_head k sg @ layout_text layout sg @ [0x0A, 0x0A] @ srt_file layout (Suc k) (sg' # r)"
  by (simp add: srt_file_def srt_block_def srt_head_def)

lemma srt_file_start:
  "d \<noteq> [] \<Longrightarrow> srt_file layout k d \<noteq> [] \<and> \<not> py_isspace (hd (srt_file layout k d))"
proof (induction d rule: induct_list012)
  case 1
  then show ?case by simp
next
  case (2 sg)
  then show ?case using srt_head_start [of k sg] by (simp add: srt_file_one)
next
  case (3 sg sg' r)
  then show ?case using srt_head_start [of k sg] by (simp add: srt_file_more)
qed

lemma srt_stripped_start:
  "d \<noteq> [] \<Longrightarrow> srt_stripped layout k d \<noteq> [] \<and> \<not> py_isspace (hd (srt_stripped layout k d))"
proof (induction d rule: induct_list012)
  case 1
  then show ?case by simp
next
  case (2 sg)
  then show ?case using srt_head_start [of k sg] by simp
next
  case (3 sg sg' r)
  then show ?case using srt_head_start [of k sg] by simp
qed

lemma nonblank_hd: "s \<noteq> [] \<and> \<not> py_isspace (hd s) \<Longrightarrow> \<exists>c\<in>set s. \<not> py_isspace c"
  by (cases s) auto

lemma readable_facts:
  assumes "readable layout sg"
  shows "\<exists>c\<in>set (layout_text layout sg). \<not> py_isspace c"
    "no_blank_line (srt_head k sg @ py_rstrip (layout_text layout sg))"
    "first_line (read_line (layout_text layout sg)) = seg_text sg"
    "seg_text sg \<noteq> []"
proof -
  let ?W = "layout_text layout sg"
  let ?t = "seg_text sg"
  have safe: "srt_safe layout sg" and nb: "py_strip ?t \<noteq> []"
    using assms by (simp_all add: readable_def)
  have fl: "first_line ?W = ?t" using safe by (simp add: srt_safe_def)
  obtain c where c: "c \<in> set ?t" "\<not> py_isspace c" using nb by (auto simp: strip_nonempty_iff)
  show ne: "?t \<noteq> []" using c by auto
  have "set (first_line ?W) \<subseteq> set ?W"
    unfolding first_line_def by (auto dest: set_takeWhileD)
  then have sub: "set ?t \<subseteq> set ?W" by (simp only: fl)
  show w: "\<exists>c\<in>set ?W. \<not> py_isspace c" using c sub by auto
  obtain x where x: "x \<in> set (py_rstrip ?W)" "\<not> py_isspace x"
    using rstrip_nonblank [OF w] by auto
  have d: "dropWhile py_isspace (py_rstrip ?W) \<noteq> []"
    using x by (auto simp: dropWhile_eq_Nil_conv)
  have "takeWhile py_isspace (py_rstrip ?W @ trailing_space ?W) = takeWhile py_isspace (py_rstrip ?W)"
    using x by (rule takeWhile_append1)
  then have t1: "takeWhile py_isspace (py_rstrip ?W) = takeWhile py_isspace ?W"
    by (simp add: rstrip_parts)
  have "?W = first_line ?W @ dropWhile (\<lambda>c. \<not> is_linebreak c) ?W"
    by (simp add: first_line_def)
  then have "?W = ?t @ dropWhile (\<lambda>c. \<not> is_linebreak c) ?W" by (simp only: fl)
  then have "takeWhile py_isspace ?W
      = takeWhile py_isspace (?t @ dropWhile (\<lambda>c. \<not> is_linebreak c) ?W)"
    by simp
  also have "\<dots> = takeWhile py_isspace ?t" using c by (rule takeWhile_append1)
  finally have t2: "takeWhile py_isspace ?W = takeWhile py_isspace ?t" .
  have "0x0A \<notin> set ?t"
    using first_line_plain [of ?W] fl by (auto simp: list_all_iff linebreak_10)
  then have t3: "0x0A \<notin> set (takeWhile py_isspace (py_rstrip ?W))"
    unfolding t1 t2 by (auto dest: set_takeWhileD)
  show "no_blank_line (srt_head k sg @ py_rstrip ?W)"
    using safe by (intro srt_head_no_blank_line d t3) (simp_all add: srt_safe_def)
  let ?y = "dropWhile (\<lambda>c. c \<noteq> 0x0A) (trailing_space ?W)"
  have parts: "read_line ?W @ ?y = ?W"
    by (simp add: read_line_def rstrip_parts)
  have y: "?y = [] \<or> is_linebreak (hd ?y)"
  proof (cases "?y = []")
    case False
    from hd_dropWhile [OF False] show ?thesis by (simp add: linebreak_10)
  qed simp
  show "first_line (read_line ?W) = ?t"
    by (rule first_line_cut [OF _ y]) (simp add: parts fl)
qed

lemma rstrip_srt_file:
  assumes "d \<noteq> []" "\<forall>sg\<in>set d. \<exists>c\<in>set (layout_text layout sg). \<not> py_isspace c"
  shows "py_rstrip (srt_file layout k d) = srt_stripped layout k d"
  using assms
proof (induction d arbitrary: k rule: induct_list012)
  case 1
  then show ?case by simp
next
  case (2 sg)
  then have w: "\<exists>c\<in>set (layout_text layout sg). \<not> py_isspace c" by simp
  have "py_rstrip (srt_head k sg @ layout_text layout sg @ [0x0A])
      = srt_head k sg @ py_rstrip (layout_text layout sg @ [0x0A])"
    using w by (intro rstrip_append) auto
  also have "py_rstrip (layout_text layout sg @ [0x0A]) = py_rstrip (layout_text layout sg)"
    by (rule rstrip_space) (simp add: space_10)
  finally show ?case by (simp add: srt_file_one)
next
  case (3 sg sg' r)
  have ih: "py_rstrip (srt_file layout (Suc k) (sg' # r)) = srt_stripped layout (Suc k) (sg' # r)"
    using 3 by simp
  have nb: "\<exists>c\<in>set (srt_file layout (Suc k) (sg' # r)). \<not> py_isspace c"
    by (rule nonblank_hd [OF srt_file_start]) simp
  have "py_rstrip ((srt_head k sg @ layout_text layout sg @ [0x0A, 0x0A])
                   @ srt_file layout (Suc k) (sg' # r))
      = (srt_head k sg @ layout_text layout sg @ [0x0A, 0x0A])
        @ py_rstrip (srt_file layout (Suc k) (sg' # r))"
    by (rule rstrip_append [OF nb])
  then show ?case by (simp add: srt_file_more ih)
qed

lemma strip_srt_file:
  assumes "d \<noteq> []" "\<forall>sg\<in>set d. \<exists>c\<in>set (layout_text layout sg). \<not> py_isspace c"
  shows "py_strip (to_srt layout d) = srt_stripped layout 1 d"
proof -
  note st = srt_file_start [OF assms(1), of layout 1]
  have "py_strip (srt_file layout 1 d) = py_rstrip (srt_file layout 1 d)"
    using st by (intro strip_rstrip) simp_all
  then show ?thesis by (simp only: to_srt_file rstrip_srt_file [OF assms])
qed

lemma split_srt_stripped:
  assumes "d \<noteq> []" "\<forall>sg\<in>set d. readable layout sg"
  shows "split_blank [] (srt_stripped layout k d) = srt_blocks layout k d"
  using assms
proof (induction d arbitrary: k rule: induct_list012)
  case 1
  then show ?case by simp
next
  case (2 sg)
  then have "no_blank_line (srt_head k sg @ py_rstrip (layout_text layout sg))"
    by (simp add: readable_facts(2))
  from split_blank_line [OF this, of "[]" "[]"] show ?case by (simp add: split_blank_Nil)
next
  case (3 sg sg' r)
  let ?W = "layout_text layout sg"
  have ih: "split_blank [] (srt_stripped layout (Suc k) (sg' # r)) = srt_blocks layout (Suc k) (sg' # r)"
    using 3 by simp
  have z: "no_blank_line (srt_head k sg @ py_rstrip ?W)"
    using 3 by (simp add: readable_facts(2))
  obtain c rest where cr: "srt_stripped layout (Suc k) (sg' # r) = c # rest" "\<not> py_isspace c"
    using srt_stripped_start [of "sg' # r" layout "Suc k"]
    by (cases "srt_stripped layout (Suc k) (sg' # r)") auto
  have "srt_stripped layout k (sg # sg' # r)
      = (srt_head k sg @ py_rstrip ?W) @ trailing_space ?W @ [0x0A, 0x0A] @ c # rest"
    using rstrip_parts [of ?W] by (simp add: cr)
  also have "split_blank [] \<dots>
      = ([] @ (srt_head k sg @ py_rstrip ?W) @ takeWhile (\<lambda>x. x \<noteq> 0x0A) (trailing_space ?W))
        # split_blank [] (c # rest)"
    by (rule split_blank_block [OF z trailing_space_all cr(2)])
  finally show ?case using ih by (simp add: cr read_line_def)
qed

lemma srt_blocks_segments:
  assumes "d \<noteq> []" "\<forall>sg\<in>set d. readable layout sg"
    "first_line (py_rstrip (layout_text layout (last d))) = seg_text (last d)"
  shows "concat (map (srt_block_segments nd False) (srt_blocks layout k d))
       = map without_translation d"
  using assms
proof (induction d arbitrary: k rule: induct_list012)
  case 1
  then show ?case by simp
next
  case (2 sg)
  then have r: "readable layout sg"
    and l: "first_line (py_rstrip (layout_text layout sg)) = seg_text sg" by simp_all
  from r have s: "srt_safe layout sg" by (simp add: readable_def)
  have "srt_block_segments nd False (srt_head k sg @ py_rstrip (layout_text layout sg))
      = [without_translation sg]"
    using s by (intro srt_block_segments_read l readable_facts(4) [OF r])
      (simp_all add: srt_safe_def)
  then show ?case by simp
next
  case (3 sg sg' r)
  then have rd: "readable layout sg" by simp
  from rd have s: "srt_safe layout sg" by (simp add: readable_def)
  have ih: "concat (map (srt_block_segments nd False) (srt_blocks layout (Suc k) (sg' # r)))
      = map without_translation (sg' # r)"
    using 3 by simp
  have "srt_block_segments nd False (srt_head k sg @ read_line (layout_text layout sg))
      = [without_translation sg]"
    using s by (intro srt_block_segments_read readable_facts(3,4) [OF rd])
      (simp_all add: srt_safe_def)
  then show ?case using ih by simp
qed

lemma without_translation_inv: "doc_inv d \<Longrightarrow> doc_inv (map without_translation d)"
  by (simp add: doc_inv_def sorted_by_start_def no_blank_text_def list_all_iff
      without_translation_def comp_def)

lemma srt_blocks_of_file:
  assumes "d \<noteq> []" "\<forall>sg\<in>set d. readable layout sg"
  shows "split_blank [] (py_strip (to_srt layout d)) = srt_blocks layout 1 d"
proof -
  have "\<forall>sg\<in>set d. \<exists>c\<in>set (layout_text layout sg). \<not> py_isspace c"
    using assms(2) readable_facts(1) by blast
  then show ?thesis
    by (simp only: strip_srt_file [OF assms(1)] split_srt_stripped [OF assms])
qed

lemma doc_readable:
  "doc_inv d \<Longrightarrow> list_all (srt_safe layout) d \<Longrightarrow> \<forall>sg\<in>set d. readable layout sg"
  by (simp add: doc_inv_def no_blank_text_def list_all_iff readable_def)

lemma from_srt_to_srt:
  assumes "doc_inv d" "list_all (srt_safe layout) d"
    "d \<noteq> [] \<longrightarrow> first_line (py_rstrip (layout_text layout (last d))) = seg_text (last d)"
    "\<not> has_translated_subtitle (split_blank [] (py_strip (to_srt layout d)))"
  shows "from_srt nd (to_srt layout d) = map without_translation d"
proof (cases "d = []")
  case True
  have "to_srt layout [] = []" by (simp add: to_srt_def)
  then have "from_srt nd (to_srt layout []) = ASRData []"
    by (simp add: from_srt_def py_strip_Nil split_blank_Nil Let_def srt_block_segments_def
        splitlines_def)
  then show ?thesis using True by (simp add: ASRData_def)
next
  case False
  note rd = doc_readable [OF assms(1,2)]
  have l: "first_line (py_rstrip (layout_text layout (last d))) = seg_text (last d)"
    using assms(3) False by simp
  have "from_srt nd (to_srt layout d)
      = ASRData (concat (map (srt_block_segments nd False) (srt_blocks layout 1 d)))"
    unfolding from_srt_def Let_def using assms(4)
    by (simp only: srt_blocks_of_file [OF False rd])
  also have "\<dots> = ASRData (map without_translation d)"
    by (simp only: srt_blocks_segments [OF False rd l])
  also have "\<dots> = map without_translation d"
    by (rule ASRData_id [OF without_translation_inv [OF assms(1)]])
  finally show ?thesis .
qed

lemma layout_text_untranslated: "translated_text sg = [] \<Longrightarrow> layout_text layout sg = seg_text sg"
  by (simp add: layout_text_def Let_def)

lemma srt_safe_untranslated:
  assumes "translated_text sg = []" "list_all (\<lambda>c. \<not> is_linebreak c) (seg_text sg)"
    "0 \<le> start_time sg" "start_time sg < 360000000" "0 \<le> end_time sg"
    "end_time sg < 360000000"
  shows "srt_safe layout sg"
proof -
  have f: "first_line (seg_text sg) = seg_text sg"
    using assms(2) by (simp add: first_line_def takeWhile_eq_all_conv list_all_iff)
  have "set (py_rstrip (seg_text sg)) \<subseteq> set (seg_text sg)"
    using rstrip_parts [of "seg_text sg"] by (metis Un_upper1 set_append)
  moreover have "0x0A \<notin> set (seg_text sg)"
    using assms(2) linebreak_10 by (auto simp: list_all_iff)
  ultimately have "0x0A \<notin> set (py_rstrip (seg_text sg))" by auto
  then have "no_blank_line (py_rstrip (seg_text sg))" by (rule no_blank_line_plain)
  with f assms(3-6) show ?thesis
    by (simp add: srt_safe_def layout_text_untranslated [OF assms(1)])
qed

lemma rstrip_last: "py_rstrip s \<noteq> [] \<Longrightarrow> \<not> py_isspace (last (py_rstrip s))"
  unfolding py_rstrip_def using hd_dropWhile [of py_isspace "rev s"] by (simp add: last_rev)

lemma written_facts:
  assumes "written layout sg"
  shows "\<exists>c\<in>set (layout_text layout sg). \<not> py_isspace c"
    "dropWhile py_isspace (py_rstrip (layout_text layout sg)) \<noteq> []"
    "0x0A \<notin> set (takeWhile py_isspace (py_rstrip (layout_text layout sg)))"
    "py_rstrip (layout_text layout sg) \<noteq> []"
    "first_line (read_line (layout_text layout sg)) = seg_text sg"
    "seg_text sg \<noteq> []"
proof -
  let ?W = "layout_text layout sg"
  let ?t = "seg_text sg"
  have fl: "first_line ?W = ?t" and nb: "py_strip ?t \<noteq> []"
    using assms by (simp_all add: written_def)
  obtain c where c: "c \<in> set ?t" "\<not> py_isspace c" using nb by (auto simp: strip_nonempty_iff)
  show ne: "?t \<noteq> []" using c by auto
  have "set (first_line ?W) \<subseteq> set ?W"
    unfolding first_line_def by (auto dest: set_takeWhileD)
  then have sub: "set ?t \<subseteq> set ?W" by (simp only: fl)
  show w: "\<exists>c\<in>set ?W. \<not> py_isspace c" using c sub by auto
  obtain x where x: "x \<in> set (py_rstrip ?W)" "\<not> py_isspace x"
    using rstrip_nonblank [OF w] by auto
  show "py_rstrip ?W \<noteq> []" using x by auto
  show "dropWhile py_isspace (py_rstrip ?W) \<noteq> []"
    using x by (auto simp: dropWhile_eq_Nil_conv)
  have "takeWhile py_isspace (py_rstrip ?W @ trailing_space ?W) = takeWhile py_isspace (py_rstrip ?W)"
    using x by (rule takeWhile_append1)
  then have t1: "takeWhile py_isspace (py_rstrip ?W) = takeWhile py_isspace ?W"
    by (simp add: rstrip_parts)
  have "?W = first_line ?W @ dropWhile (\<lambda>c. \<not> is_linebreak c) ?W"
    by (simp add: first_line_def)
  then have "?W = ?t @ dropWhile (\<lambda>c. \<not> is_linebreak c) ?W" by (simp only: fl)
  then have "takeWhile py_isspace ?W
      = takeWhile py_isspace (?t @ dropWhile (\<lambda>c. \<not> is_linebreak c) ?W)"
    by simp
  also have "\<dots> = takeWhile py_isspace ?t" using c by (rule takeWhile_append1)
  finally have t2: "takeWhile py_isspace ?W = takeWhile py_isspace ?t" .
  have "0x0A \<notin> set ?t"
    using first_line_plain [of ?W] fl by (auto simp: list_all_iff linebreak_10)
  then show "0x0A \<notin> set (takeWhile py_isspace (py_rstrip ?W))"
    unfolding t1 t2 by (auto dest: set_takeWhileD)
  let ?y = "dropWhile (\<lambda>c. c \<noteq> 0x0A) (trailing_space ?W)"
  have parts: "read_line ?W @ ?y = ?W"
    by (simp add: read_line_def rstrip_parts)
  have y: "?y = [] \<or> is_linebreak (hd ?y)"
  proof (cases "?y = []")
    case False
    from hd_dropWhile [OF False] show ?thesis by (simp add: linebreak_10)
  qed simp
  show "first_line (read_line ?W) = ?t"
    by (rule first_line_cut [OF _ y]) (simp add: parts fl)
qed

lemma split_blank_head:
  assumes "0 \<le> start_time sg" "0 \<le> end_time sg" "dropWhile py_isspace x \<noteq> []"
    "0x0A \<notin> set (takeWhile py_isspace x)"
  shows "split_blank acc (srt_head k sg @ x @ r) = split_blank (acc @ srt_head k sg) (x @ r)"
proof -
  define x0 where "x0 = takeWhile py_isspace x @ [hd (dropWhile py_isspace x)]"
  define x1 where "x1 = tl (dropWhile py_isspace x)"
  have x: "x = x0 @ x1"
    using assms(3) takeWhile_dropWhile_id [of py_isspace x] by (simp add: x0_def x1_def)
  have h: "\<not> py_isspace (hd (dropWhile py_isspace x))" by (rule hd_dropWhile [OF assms(3)])
  then have h10: "hd (dropWhile py_isspace x) \<noteq> 0x0A" using space_10 by auto
  have "0x0A \<notin> set x0" using assms(4) h10 by (auto simp: x0_def)
  then have a: "no_blank_line x0" by (rule no_blank_line_plain)
  have tw: "takeWhile py_isspace x0 = takeWhile py_isspace x"
    using h by (simp add: x0_def takeWhile_tail)
  have b: "dropWhile py_isspace x0 \<noteq> []"
    using h by (auto simp: x0_def dropWhile_eq_Nil_conv)
  have c: "0x0A \<notin> set (takeWhile py_isspace x0)" using assms(4) by (simp add: tw)
  have n: "no_blank_line (srt_head k sg @ x0)"
    by (rule srt_head_no_blank_line [OF assms(1,2) a b c])
  have "split_blank acc ((srt_head k sg @ x0) @ (x1 @ r))
      = split_blank (acc @ srt_head k sg @ x0) (x1 @ r)"
    by (rule split_blank_line [OF n])
  moreover have "split_blank (acc @ srt_head k sg) (x0 @ (x1 @ r))
      = split_blank ((acc @ srt_head k sg) @ x0) (x1 @ r)"
    by (rule split_blank_line [OF a])
  ultimately show ?thesis by (simp add: x)
qed

lemma read_line_facts:
  assumes "written layout sg"
  shows "dropWhile py_isspace (read_line (layout_text layout sg)) \<noteq> []"
    "0x0A \<notin> set (takeWhile py_isspace (read_line (layout_text layout sg)))"
proof -
  let ?W = "layout_text layout sg"
  note f = written_facts [OF assms]
  obtain x where x: "x \<in> set (py_rstrip ?W)" "\<not> py_isspace x"
    using f(2) by (auto simp: dropWhile_eq_Nil_conv)
  then show "dropWhile py_isspace (read_line ?W) \<noteq> []"
    by (auto simp: read_line_def dropWhile_eq_Nil_conv)
  have "takeWhile py_isspace (read_line ?W) = takeWhile py_isspace (py_rstrip ?W)"
    unfolding read_line_def using x by (rule takeWhile_append1)
  then show "0x0A \<notin> set (takeWhile py_isspace (read_line ?W))" using f(3) by simp
qed

lemma split_blank_plain: "0x0A \<notin> set u \<Longrightarrow> split_blank acc u = [acc @ u]"
  using split_blank_line [OF no_blank_line_plain, of u acc "[]"] by (simp add: split_blank_Nil)

lemma split_blank_chunk:
  assumes "0 \<le> start_time sg" "0 \<le> end_time sg" "dropWhile py_isspace x \<noteq> []"
    "0x0A \<notin> set (takeWhile py_isspace x)"
  shows "split_blank [] (srt_head k sg @ x)
       = (srt_head k sg @ hd (split_blank [] x)) # tl (split_blank [] x)"
proof -
  have "split_blank [] (srt_head k sg @ x @ []) = split_blank ([] @ srt_head k sg) (x @ [])"
    by (rule split_blank_head [OF assms])
  then have "split_blank [] (srt_head k sg @ x) = split_blank (srt_head k sg) x" by simp
  then show ?thesis by (simp only: split_blank_acc [of "srt_head k sg" x])
qed

lemma chunk_mid:
  assumes "written layout sg" "\<not> py_isspace c"
  shows "split_blank [] (srt_head k sg @ layout_text layout sg @ [0x0A, 0x0A] @ c # rest)
       = split_blank [] (srt_head k sg @ read_line (layout_text layout sg))
         @ split_blank [] (c # rest)"
proof -
  let ?W = "layout_text layout sg"
  let ?H = "srt_head k sg"
  let ?u = "takeWhile (\<lambda>x. x \<noteq> 0x0A) (trailing_space ?W)"
  let ?P = "split_blank ?H (py_rstrip ?W)"
  note f = written_facts [OF assms(1)]
  have t: "0 \<le> start_time sg" "0 \<le> end_time sg" using assms(1) by (simp_all add: written_def)
  have l: "py_rstrip ?W = [] \<or> \<not> py_isspace (last (py_rstrip ?W))"
    using rstrip_last [of ?W] by blast
  have u: "0x0A \<notin> set ?u" by (auto dest: set_takeWhileD)
  have "?H @ ?W @ [0x0A, 0x0A] @ c # rest
      = ?H @ py_rstrip ?W @ (trailing_space ?W @ [0x0A, 0x0A] @ c # rest)"
    using rstrip_parts [of ?W] by (metis append_assoc)
  then have "split_blank [] (?H @ ?W @ [0x0A, 0x0A] @ c # rest)
      = split_blank ([] @ ?H) (py_rstrip ?W @ (trailing_space ?W @ [0x0A, 0x0A] @ c # rest))"
    by (simp only: split_blank_head [OF t f(2,3)])
  also have "\<dots> = butlast ?P
      @ split_blank (last ?P) (trailing_space ?W @ [0x0A, 0x0A] @ c # rest)"
    using split_blank_append [OF l, of ?H] by simp
  also have "split_blank (last ?P) (trailing_space ?W @ [0x0A, 0x0A] @ c # rest)
      = (last ?P @ ?u) # split_blank [] (c # rest)"
    using split_blank_block [of "[]" "trailing_space ?W" c "last ?P" rest]
      trailing_space_all [of ?W] assms(2) by simp
  finally have lhs: "split_blank [] (?H @ ?W @ [0x0A, 0x0A] @ c # rest)
      = butlast ?P @ (last ?P @ ?u) # split_blank [] (c # rest)" .
  have "split_blank [] (?H @ py_rstrip ?W @ ?u) = split_blank ([] @ ?H) (py_rstrip ?W @ ?u)"
    by (rule split_blank_head [OF t f(2,3)])
  also have "\<dots> = butlast ?P @ split_blank (last ?P) ?u"
    using split_blank_append [OF l, of ?H] by simp
  also have "split_blank (last ?P) ?u = [last ?P @ ?u]" by (rule split_blank_plain [OF u])
  finally have rhs: "split_blank [] (?H @ read_line ?W) = butlast ?P @ [last ?P @ ?u]"
    by (simp add: read_line_def)
  show ?thesis unfolding lhs rhs by simp
qed

lemma split_chunks:
  assumes "d \<noteq> []" "\<forall>sg\<in>set d. written layout sg"
  shows "split_blank [] (srt_stripped layout k d) = srt_chunks layout k d"
  using assms
proof (induction d arbitrary: k rule: induct_list012)
  case 1
  then show ?case by simp
next
  case (2 sg)
  show ?case by simp
next
  case (3 sg sg' r)
  have ih: "split_blank [] (srt_stripped layout (Suc k) (sg' # r)) = srt_chunks layout (Suc k) (sg' # r)"
    using 3 by simp
  have w: "written layout sg" using 3 by simp
  obtain c rest where cr: "srt_stripped layout (Suc k) (sg' # r) = c # rest" "\<not> py_isspace c"
    using srt_stripped_start [of "sg' # r" layout "Suc k"]
    by (cases "srt_stripped layout (Suc k) (sg' # r)") auto
  show ?case
    using chunk_mid [OF w cr(2), of k rest] ih by (simp add: cr)
qed

lemma chunk_segments:
  assumes "0 \<le> start_time sg" "start_time sg < 360000000"
    "0 \<le> end_time sg" "end_time sg < 360000000" "seg_text sg \<noteq> []"
    "first_line x = seg_text sg" "dropWhile py_isspace x \<noteq> []"
    "0x0A \<notin> set (takeWhile py_isspace x)" "unread nd x"
  shows "concat (map (srt_block_segments nd False) (split_blank [] (srt_head k sg @ x)))
       = [without_translation sg]"
proof -
  obtain y where y: "x = hd (split_blank [] x) @ y" "y = [] \<or> hd y = 0x0A"
    using split_blank_first [of "[]" x] by auto
  have "y = [] \<or> is_linebreak (hd y)" using y(2) linebreak_10 by auto
  then have fl: "first_line (hd (split_blank [] x)) = seg_text sg"
    by (rule first_line_cut [rotated]) (use y(1) assms(6) in simp)
  have a: "srt_block_segments nd False (srt_head k sg @ hd (split_blank [] x))
      = [without_translation sg]"
    by (rule srt_block_segments_read [OF assms(1-4) fl assms(5)])
  have b: "concat (map (srt_block_segments nd False) (tl (split_blank [] x))) = []"
    using assms(9) by (simp add: unread_def list_all_iff)
  show ?thesis
    unfolding split_blank_chunk [OF assms(1,3,7,8)] using a b by simp
qed

lemma chunks_segments:
  assumes "d \<noteq> []" "\<forall>sg\<in>set d. written layout sg \<and> srt_writable layout nd sg"
    "srt_last_writable layout nd (last d)"
  shows "concat (map (srt_block_segments nd False) (srt_chunks layout k d))
       = map without_translation d"
  using assms
proof (induction d arbitrary: k rule: induct_list012)
  case 1
  then show ?case by simp
next
  case (2 sg)
  then have w: "written layout sg" and s: "srt_writable layout nd sg"
    and l: "srt_last_writable layout nd sg" by simp_all
  note f = written_facts [OF w]
  have "concat (map (srt_block_segments nd False)
      (split_blank [] (srt_head k sg @ py_rstrip (layout_text layout sg))))
      = [without_translation sg]"
    using s l by (intro chunk_segments f(2,3,6)) (simp_all add: srt_writable_def srt_last_writable_def)
  then show ?case by simp
next
  case (3 sg sg' r)
  then have w: "written layout sg" and s: "srt_writable layout nd sg" by simp_all
  have ih: "concat (map (srt_block_segments nd False) (srt_chunks layout (Suc k) (sg' # r)))
      = map without_translation (sg' # r)"
    using 3 by simp
  note f = written_facts [OF w] and g = read_line_facts [OF w]
  have "concat (map (srt_block_segments nd False)
      (split_blank [] (srt_head k sg @ read_line (layout_text layout sg))))
      = [without_translation sg]"
    using s by (intro chunk_segments f(5,6) g) (simp_all add: srt_writable_def)
  then show ?case using ih by simp
qed

lemma doc_written:
  "doc_inv d \<Longrightarrow> list_all (srt_writable layout nd) d
     \<Longrightarrow> \<forall>sg\<in>set d. written layout sg \<and> srt_writable layout nd sg"
  by (simp add: doc_inv_def no_blank_text_def list_all_iff written_def srt_writable_def)

lemma srt_chunks_of_file:
  assumes "d \<noteq> []" "\<forall>sg\<in>set d. written layout sg"
  shows "split_blank [] (py_strip (to_srt layout d)) = srt_chunks layout 1 d"
proof -
  have "\<forall>sg\<in>set d. \<exists>c\<in>set (layout_text layout sg). \<not> py_isspace c"
    using assms(2) written_facts(1) by blast
  then show ?thesis
    by (simp only: strip_srt_file [OF assms(1)] split_chunks [OF assms])
qed

lemma from_srt_to_srt_general:
  assumes "doc_inv d" "list_all (srt_writable layout nd) d"
    "d \<noteq> [] \<longrightarrow> srt_last_writable layout nd (last d)"
    "\<not> has_translated_subtitle (split_blank [] (py_strip (to_srt layout d)))"
  shows "from_srt nd (to_srt layout d) = map without_translation d"
proof (cases "d = []")
  case True
  have "to_srt layout [] = []" by (simp add: to_srt_def)
  then have "from_srt nd (to_srt layout []) = ASRData []"
    by (simp add: from_srt_def py_strip_Nil split_blank_Nil Let_def srt_block_segments_def
        splitlines_def)
  then show ?thesis using True by (simp add: ASRData_def)
next
  case False
  note w = doc_written [OF assms(1,2)]
  then have w1: "\<forall>sg\<in>set d. written layout sg" by blast
  have l: "srt_last_writable layout nd (last d)" using assms(3) False by simp
  have "from_srt nd (to_srt layout d)
      = ASRData (concat (map (srt_block_segments nd False) (srt_chunks layout 1 d)))"
    unfolding from_srt_def Let_def using assms(4)
    by (simp only: srt_chunks_of_file [OF False w1])
  also have "\<dots> = ASRData (map without_translation d)"
    by (simp only: chunks_segments [OF False w l])
  also have "\<dots> = map without_translation d"
    by (rule ASRData_id [OF without_translation_inv [OF assms(1)]])
  finally show ?thesis .
qed

lemma unread_no_blank_line: "no_blank_line x \<Longrightarrow> 0x0A \<notin> set u \<Longrightarrow> unread nd (x @ u)"
proof -
  assume a: "no_blank_line x" "0x0A \<notin> set u"
  have "split_blank [] (x @ u) = split_blank ([] @ x) u" by (rule split_blank_line [OF a(1)])
  also have "\<dots> = [x @ u]" using split_blank_plain [OF a(2), of x] by simp
  finally show ?thesis by (simp add: unread_def)
qed

lemma srt_safe_writable: "srt_safe layout sg \<Longrightarrow> srt_writable layout nd sg"
proof -
  assume s: "srt_safe layout sg"
  have "0x0A \<notin> set (takeWhile (\<lambda>x. x \<noteq> 0x0A) (trailing_space (layout_text layout sg)))"
    by (auto dest: set_takeWhileD)
  then have "unread nd (read_line (layout_text layout sg))"
    unfolding read_line_def using s by (intro unread_no_blank_line) (simp_all add: srt_safe_def)
  with s show ?thesis by (simp add: srt_safe_def srt_writable_def)
qed

lemma srt_safe_last_writable:
  "srt_safe layout sg \<Longrightarrow> first_line (py_rstrip (layout_text layout sg)) = seg_text sg
     \<Longrightarrow> srt_last_writable layout nd sg"
  using unread_no_blank_line [of "py_rstrip (layout_text layout sg)" "[]" nd]
  by (simp add: srt_safe_def srt_last_writable_def)

subsection \<open>Examples\<close>

lemma binary64_98: "binary64 (49 / 50) = 2206763817411543 / 2251799813685248"
  by code_simp

lemmas text_defs = layout_text_def first_line_def py_rstrip_def read_line_def trailing_space_def
  seg_of_def ustr_of_def py_isspace_def is_linebreak_def

lemma padded_doc_inv: "doc_inv padded_doc"
  by (simp add: padded_doc_def doc_inv_def sorted_by_start_def no_blank_text_def
      seg_of_def strip_nonempty_iff ustr_of_def py_isspace_def)

lemma padded_doc_safe: "list_all (srt_safe layout_original_on_top) padded_doc"
  by (simp add: padded_doc_def srt_safe_def text_defs)

lemma padded_doc_last:
  "padded_doc \<noteq> [] \<longrightarrow>
     first_line (py_rstrip (layout_text layout_original_on_top (last padded_doc)))
       = seg_text (last padded_doc)"
  by (simp add: padded_doc_def text_defs)

lemma padded_doc_not_bilingual:
  "\<not> has_translated_subtitle
       (split_blank [] (py_strip (to_srt layout_original_on_top padded_doc)))"
proof -
  have ne: "padded_doc \<noteq> []" by (simp add: padded_doc_def)
  note rd = doc_readable [OF padded_doc_inv padded_doc_safe]
  have c: "map (\<lambda>b. length (splitlines b)) (srt_blocks layout_original_on_top 1 padded_doc)
      = [4, 3]"
    by (simp add: padded_doc_def text_defs splitlines_head)
      (simp add: splitlines_def is_linebreak_def)
  show ?thesis
    unfolding srt_blocks_of_file [OF ne rd] has_translated_subtitle_def Let_def c
    by (simp add: binary64_half binary64_98)
qed

lemmas layout_defs = layout_original_on_top_def layout_translate_on_top_def
  layout_only_original_def layout_only_translate_def

lemma counts_4_3:
  assumes "d \<noteq> []" "\<forall>sg\<in>set d. readable layout sg"
    "map (\<lambda>b. length (splitlines b)) (srt_blocks layout 1 d) = [4, 3]"
  shows "\<not> has_translated_subtitle (split_blank [] (py_strip (to_srt layout d)))"
  unfolding srt_blocks_of_file [OF assms(1,2)] has_translated_subtitle_def Let_def assms(3)
  by (simp add: binary64_half binary64_98)

lemma counts_3_3:
  assumes "d \<noteq> []" "\<forall>sg\<in>set d. readable layout sg"
    "map (\<lambda>b. length (splitlines b)) (srt_blocks layout 1 d) = [3, 3]"
  shows "\<not> has_translated_subtitle (split_blank [] (py_strip (to_srt layout d)))"
  unfolding srt_blocks_of_file [OF assms(1,2)] has_translated_subtitle_def Let_def assms(3)
  by (simp add: binary64_zero binary64_98)

lemma counts_3:
  assumes "d \<noteq> []" "\<forall>sg\<in>set d. readable layout sg"
    "map (\<lambda>b. length (splitlines b)) (srt_blocks layout 1 d) = [3]"
  shows "\<not> has_translated_subtitle (split_blank [] (py_strip (to_srt layout d)))"
  unfolding srt_blocks_of_file [OF assms(1,2)] has_translated_subtitle_def Let_def assms(3)
  by (simp add: binary64_zero binary64_98)

lemma translated_doc_read:
  "doc_inv translated_doc"
  "from_srt nd (to_srt layout_original_on_top translated_doc)
     = [seg_of ''a'' 0 1000, seg_of ''c'' 1000 2000]"
  "\<not> has_translated_subtitle
       (split_blank [] (py_strip (to_srt layout_original_on_top translated_doc)))"
proof -
  show inv: "doc_inv translated_doc"
    by (simp add: translated_doc_def doc_inv_def sorted_by_start_def no_blank_text_def
        seg_of_def strip_nonempty_iff ustr_of_def py_isspace_def)
  have safe: "list_all (srt_safe layout_original_on_top) translated_doc"
    by (simp add: translated_doc_def srt_safe_def text_defs)
  have l: "translated_doc \<noteq> [] \<longrightarrow>
      first_line (py_rstrip (layout_text layout_original_on_top (last translated_doc)))
        = seg_text (last translated_doc)"
    by (simp add: translated_doc_def text_defs)
  have ne: "translated_doc \<noteq> []" by (simp add: translated_doc_def)
  have c: "map (\<lambda>b. length (splitlines b)) (srt_blocks layout_original_on_top 1 translated_doc)
      = [4, 3]"
    by (simp add: translated_doc_def text_defs splitlines_head)
      (simp add: splitlines_def is_linebreak_def)
  show nb: "\<not> has_translated_subtitle
       (split_blank [] (py_strip (to_srt layout_original_on_top translated_doc)))"
    by (rule counts_4_3 [OF ne doc_readable [OF inv safe] c])
  show "from_srt nd (to_srt layout_original_on_top translated_doc)
     = [seg_of ''a'' 0 1000, seg_of ''c'' 1000 2000]"
    unfolding from_srt_to_srt [OF inv safe l nb]
    by (simp add: translated_doc_def without_translation_def seg_of_def)
qed

lemma swapped_doc_read:
  "from_srt nd (to_srt layout_original_on_top swapped_doc)
     = [seg_of ''b'' 0 1000, seg_of ''c'' 1000 2000]"
  "\<not> has_translated_subtitle
       (split_blank [] (py_strip (to_srt layout_original_on_top swapped_doc)))"
proof -
  have inv: "doc_inv swapped_doc"
    by (simp add: swapped_doc_def doc_inv_def sorted_by_start_def no_blank_text_def
        seg_of_def strip_nonempty_iff ustr_of_def py_isspace_def)
  have safe: "list_all (srt_safe layout_original_on_top) swapped_doc"
    by (simp add: swapped_doc_def srt_safe_def text_defs)
  have l: "swapped_doc \<noteq> [] \<longrightarrow>
      first_line (py_rstrip (layout_text layout_original_on_top (last swapped_doc)))
        = seg_text (last swapped_doc)"
    by (simp add: swapped_doc_def text_defs)
  have ne: "swapped_doc \<noteq> []" by (simp add: swapped_doc_def)
  have c: "map (\<lambda>b. length (splitlines b)) (srt_blocks layout_original_on_top 1 swapped_doc)
      = [4, 3]"
    by (simp add: swapped_doc_def text_defs splitlines_head)
      (simp add: splitlines_def is_linebreak_def)
  show nb: "\<not> has_translated_subtitle
       (split_blank [] (py_strip (to_srt layout_original_on_top swapped_doc)))"
    by (rule counts_4_3 [OF ne doc_readable [OF inv safe] c])
  show "from_srt nd (to_srt layout_original_on_top swapped_doc)
     = [seg_of ''b'' 0 1000, seg_of ''c'' 1000 2000]"
    unfolding from_srt_to_srt [OF inv safe l nb]
    by (simp add: swapped_doc_def without_translation_def seg_of_def)
qed

lemma two_block_doc_read:
  "from_srt nd (to_srt layout_original_on_top two_block_doc)
     = [seg_of ''a'' 0 1000, seg_of ''fake'' 5000 6000]"
  "\<not> has_translated_subtitle
       (split_blank [] (py_strip (to_srt layout_original_on_top two_block_doc)))"
proof -
  have inv: "doc_inv two_block_doc"
    by (simp add: two_block_doc_def doc_inv_def sorted_by_start_def no_blank_text_def
        seg_of_def strip_nonempty_iff ustr_of_def py_isspace_def)
  have safe: "list_all (srt_safe layout_original_on_top) two_block_doc"
    by (simp add: two_block_doc_def srt_safe_def text_defs)
  have l: "two_block_doc \<noteq> [] \<longrightarrow>
      first_line (py_rstrip (layout_text layout_original_on_top (last two_block_doc)))
        = seg_text (last two_block_doc)"
    by (simp add: two_block_doc_def text_defs)
  have ne: "two_block_doc \<noteq> []" by (simp add: two_block_doc_def)
  have c: "map (\<lambda>b. length (splitlines b)) (srt_blocks layout_original_on_top 1 two_block_doc)
      = [4, 3]"
    by (simp add: two_block_doc_def text_defs splitlines_head)
      (simp add: splitlines_def is_linebreak_def)
  show nb: "\<not> has_translated_subtitle
       (split_blank [] (py_strip (to_srt layout_original_on_top two_block_doc)))"
    by (rule counts_4_3 [OF ne doc_readable [OF inv safe] c])
  show "from_srt nd (to_srt layout_original_on_top two_block_doc)
     = [seg_of ''a'' 0 1000, seg_of ''fake'' 5000 6000]"
    unfolding from_srt_to_srt [OF inv safe l nb]
    by (simp add: two_block_doc_def without_translation_def seg_of_def)
qed

lemma line_break_file:
  "to_srt layout_original_on_top line_break_doc = to_srt layout_original_on_top translated_doc"
  by (simp add: to_srt_def srt_block_def layout_text_def Let_def to_srt_ts_def
      line_break_doc_def translated_doc_def seg_of_def ustr_of_def)

lemma translate_on_top_file:
  "to_srt layout_translate_on_top translated_doc = to_srt layout_original_on_top swapped_doc"
  by (simp add: to_srt_def srt_block_def layout_text_def Let_def to_srt_ts_def swapped_doc_def
      translated_doc_def seg_of_def layout_defs ustr_of_def)

lemma stamp_5000:
  "ms_to_srt_time 5000 = ustr_of ''00:00:05,000''"
  "ms_to_srt_time 6000 = ustr_of ''00:00:06,000''"
  by (simp_all add: ms_to_srt_time_digits ustr_of_def)

lemma blank_line_file:
  "to_srt layout_original_on_top blank_line_doc = to_srt layout_original_on_top two_block_doc"
  by (simp add: to_srt_def srt_block_def layout_text_def Let_def to_srt_ts_def seg_of_def
      blank_line_doc_def two_block_doc_def stamp_5000 py_str_def dec_digits_small ustr_of_def)

lemma plain_doc_read:
  "from_srt nd (to_srt layout_original_on_top plain_doc)
     = [seg_of ''b'' 0 1000, seg_of ''c'' 1000 2000]"
  "\<not> has_translated_subtitle
       (split_blank [] (py_strip (to_srt layout_original_on_top plain_doc)))"
proof -
  let ?d = "plain_doc"
  have inv: "doc_inv ?d"
    by (simp add: plain_doc_def doc_inv_def sorted_by_start_def no_blank_text_def seg_of_def
        strip_nonempty_iff ustr_of_def py_isspace_def)
  have safe: "list_all (srt_safe layout_original_on_top) ?d"
    by (simp add: plain_doc_def srt_safe_def text_defs)
  have l: "?d \<noteq> [] \<longrightarrow>
      first_line (py_rstrip (layout_text layout_original_on_top (last ?d))) = seg_text (last ?d)"
    by (simp add: plain_doc_def text_defs)
  have ne: "?d \<noteq> []" by (simp add: plain_doc_def)
  have c: "map (\<lambda>b. length (splitlines b)) (srt_blocks layout_original_on_top 1 ?d) = [3, 3]"
    by (simp add: plain_doc_def text_defs splitlines_head)
      (simp add: splitlines_def is_linebreak_def)
  show nb: "\<not> has_translated_subtitle
       (split_blank [] (py_strip (to_srt layout_original_on_top ?d)))"
    by (rule counts_3_3 [OF ne doc_readable [OF inv safe] c])
  show "from_srt nd (to_srt layout_original_on_top ?d)
      = [seg_of ''b'' 0 1000, seg_of ''c'' 1000 2000]"
    unfolding from_srt_to_srt [OF inv safe l nb]
    by (simp add: plain_doc_def without_translation_def seg_of_def)
qed

lemma only_translate_file:
  "to_srt layout_only_translate translated_doc
     = to_srt layout_original_on_top plain_doc"
  by (simp add: to_srt_def srt_block_def layout_text_def Let_def to_srt_ts_def
      translated_doc_def plain_doc_def seg_of_def layout_defs ustr_of_def)

lemma rstrip_id: "s \<noteq> [] \<Longrightarrow> \<not> py_isspace (last s) \<Longrightarrow> py_rstrip s = s"
  by (cases "rev s") (simp_all add: py_rstrip_def last_rev)

lemma from_srt_one_block:
  assumes "no_blank_line b" "b \<noteq> []" "\<not> py_isspace (hd b)" "\<not> py_isspace (last b)"
    "list_all py_isspace w" "length (splitlines b) = 3"
  shows "split_blank [] (py_strip (b @ w)) = [b]"
    "from_srt nd (b @ w) = ASRData (srt_block_segments nd False b)"
proof -
  have "py_strip (b @ w) = py_rstrip (b @ w)"
    using assms(2,3) by (intro strip_rstrip) simp_all
  also have "\<dots> = py_rstrip b" by (rule rstrip_space [OF assms(5)])
  also have "\<dots> = b" by (rule rstrip_id [OF assms(2,4)])
  finally have s: "py_strip (b @ w) = b" .
  show blocks: "split_blank [] (py_strip (b @ w)) = [b]"
    unfolding s using split_blank_line [OF assms(1), of "[]" "[]"] by (simp add: split_blank_Nil)
  have "\<not> has_translated_subtitle [b]"
    by (simp add: has_translated_subtitle_def assms(6) binary64_zero binary64_98)
  then show "from_srt nd (b @ w) = ASRData (srt_block_segments nd False b)"
    by (simp add: from_srt_def blocks)
qed

lemma stamp_values:
  "ms_to_srt_time 0 = ustr_of ''00:00:00,000''"
  "ms_to_srt_time 1000 = ustr_of ''00:00:01,000''"
  "ms_to_srt_time 360000000 = ustr_of ''100:00:00,000''"
  "ms_to_srt_time (- 1) = ustr_of ''-1:59:59,999''"
proof -
  show "ms_to_srt_time 0 = ustr_of ''00:00:00,000''"
    "ms_to_srt_time 1000 = ustr_of ''00:00:01,000''"
    by (simp_all add: ms_to_srt_time_digits ustr_of_def)
  have h: "format_zero 2 100 = ustr_of ''100''"
    by (simp add: format_zero_def dec_digits_three ustr_of_def)
  have z: "format_zero 2 0 = ustr_of ''00''" "format_zero 3 0 = ustr_of ''000''"
    using format_zero_2 [of 0] format_zero_3 [of 0] by (simp_all add: ustr_of_def)
  show "ms_to_srt_time 360000000 = ustr_of ''100:00:00,000''"
    by (simp add: ms_to_srt_time_def h z) (simp add: ustr_of_def)
  have m: "format_zero 2 (- 1) = ustr_of ''-1''"
    by (simp add: format_zero_def dec_digits_small ustr_of_def)
  have n: "format_zero 2 59 = ustr_of ''59''" "format_zero 3 999 = ustr_of ''999''"
    using format_zero_2 [of 59] format_zero_3 [of 999] by (simp_all add: ustr_of_def)
  show "ms_to_srt_time (- 1) = ustr_of ''-1:59:59,999''"
    by (simp add: ms_to_srt_time_def m n) (simp add: ustr_of_def)
qed

lemmas stamp_defs = srt_time_pattern_def match_srt_stamp_def match_seconds_def dot_or_comma_def
  one_space_def expect_def is_digit_def digit_value_def digits_value_def numeral_2_eq_2
  numeral_3_eq_3

lemma long_block_read:
  "to_srt layout_original_on_top [seg_of ''a'' 0 360000000] = long_block @ [0x0A]"
  "split_blank [] (py_strip (long_block @ [0x0A])) = [long_block]"
  "length (splitlines long_block) = 3"
  "from_srt nd (long_block @ [0x0A]) = []"
proof -
  show "to_srt layout_original_on_top [seg_of ''a'' 0 360000000] = long_block @ [0x0A]"
    by (simp add: to_srt_def srt_block_def layout_text_def Let_def to_srt_ts_def seg_of_def
        long_block_def stamp_values py_str_def dec_digits_small) (simp add: ustr_of_def)
  show c: "length (splitlines long_block) = 3"
    by (simp add: long_block_def splitlines_def ustr_of_def is_linebreak_def)
  have a: "no_blank_line long_block" "long_block \<noteq> []" "\<not> py_isspace (hd long_block)"
    "\<not> py_isspace (last long_block)"
    by (simp_all add: long_block_def ustr_of_def py_isspace_def)
  have w: "list_all py_isspace [0x0A]" by (simp add: space_10)
  show "split_blank [] (py_strip (long_block @ [0x0A])) = [long_block]"
    by (rule from_srt_one_block(1) [OF a w c])
  have "srt_block_segments nd False long_block = []"
    by (simp add: srt_block_segments_def long_block_def splitlines_def ustr_of_def
        is_linebreak_def stamp_defs py_isspace_def)
  then show "from_srt nd (long_block @ [0x0A]) = []"
    by (simp add: from_srt_one_block(2) [OF a w c] ASRData_def)
qed

lemma negative_block_read:
  "to_srt layout_original_on_top [seg_of ''a'' (- 1) 1000] = negative_block @ [0x0A]"
  "split_blank [] (py_strip (negative_block @ [0x0A])) = [negative_block]"
  "length (splitlines negative_block) = 3"
  "from_srt nd (negative_block @ [0x0A]) = []"
proof -
  show "to_srt layout_original_on_top [seg_of ''a'' (- 1) 1000] = negative_block @ [0x0A]"
    by (simp add: to_srt_def srt_block_def layout_text_def Let_def to_srt_ts_def seg_of_def
        negative_block_def stamp_values py_str_def dec_digits_small) (simp add: ustr_of_def)
  show c: "length (splitlines negative_block) = 3"
    by (simp add: negative_block_def splitlines_def ustr_of_def is_linebreak_def)
  have a: "no_blank_line negative_block" "negative_block \<noteq> []"
    "\<not> py_isspace (hd negative_block)" "\<not> py_isspace (last negative_block)"
    by (simp_all add: negative_block_def ustr_of_def py_isspace_def)
  have w: "list_all py_isspace [0x0A]" by (simp add: space_10)
  show "split_blank [] (py_strip (negative_block @ [0x0A])) = [negative_block]"
    by (rule from_srt_one_block(1) [OF a w c])
  have "srt_block_segments nd False negative_block = []"
    by (simp add: srt_block_segments_def negative_block_def splitlines_def ustr_of_def
        is_linebreak_def stamp_defs py_isspace_def)
  then show "from_srt nd (negative_block @ [0x0A]) = []"
    by (simp add: from_srt_one_block(2) [OF a w c] ASRData_def)
qed

lemma trailing_space_file:
  "py_strip (to_srt layout_original_on_top [seg_of ''a '' 0 1000])
     = py_strip (to_srt layout_original_on_top [seg_of ''a'' 0 1000])"
proof -
  let ?b = "srt_head 1 (seg_of ''a'' 0 1000) @ ustr_of ''a''"
  have h: "srt_head 1 (seg_of ''a '' 0 1000) = srt_head 1 (seg_of ''a'' 0 1000)"
    by (simp add: srt_head_def to_srt_ts_def seg_of_def)
  have a: "to_srt layout_original_on_top [seg_of ''a '' 0 1000] = ?b @ [0x20, 0x0A]"
    unfolding to_srt_file srt_file_one h by (simp add: layout_text_def seg_of_def ustr_of_def)
  have b: "to_srt layout_original_on_top [seg_of ''a'' 0 1000] = ?b @ [0x0A]"
    unfolding to_srt_file srt_file_one by (simp add: layout_text_def seg_of_def ustr_of_def)
  note st1 = srt_head_start [of 1 "seg_of ''a'' 0 1000" "ustr_of ''a'' @ [0x20, 0x0A]"]
  note st = srt_head_start [of 1 "seg_of ''a'' 0 1000" "ustr_of ''a'' @ [0x0A]"]
  have "py_strip (?b @ [0x20, 0x0A]) = py_rstrip (?b @ [0x20, 0x0A])"
    using st1 by (intro strip_rstrip) simp_all
  also have "\<dots> = py_rstrip ?b" by (rule rstrip_space) (simp add: py_isspace_def)
  also have "\<dots> = py_rstrip (?b @ [0x0A])"
    by (rule rstrip_space [symmetric]) (simp add: py_isspace_def)
  also have "\<dots> = py_strip (?b @ [0x0A])"
    using st by (intro strip_rstrip [symmetric]) simp_all
  finally show ?thesis by (simp only: a b)
qed

lemma single_segment_read:
  "from_srt nd (to_srt layout_original_on_top [seg_of ''a'' 0 1000]) = [seg_of ''a'' 0 1000]"
  "\<not> has_translated_subtitle
       (split_blank [] (py_strip (to_srt layout_original_on_top [seg_of ''a'' 0 1000])))"
proof -
  let ?d = "[seg_of ''a'' 0 1000]"
  have inv: "doc_inv ?d"
    by (simp add: doc_inv_def sorted_by_start_def no_blank_text_def seg_of_def
        strip_nonempty_iff ustr_of_def py_isspace_def)
  have safe: "list_all (srt_safe layout_original_on_top) ?d"
    by (simp add: srt_safe_def text_defs)
  have l: "?d \<noteq> [] \<longrightarrow>
      first_line (py_rstrip (layout_text layout_original_on_top (last ?d))) = seg_text (last ?d)"
    by (simp add: text_defs)
  have ne: "?d \<noteq> []" by simp
  have c: "map (\<lambda>b. length (splitlines b)) (srt_blocks layout_original_on_top 1 ?d) = [3]"
    by (simp add: text_defs splitlines_head) (simp add: splitlines_def is_linebreak_def)
  show nb: "\<not> has_translated_subtitle
       (split_blank [] (py_strip (to_srt layout_original_on_top ?d)))"
    by (rule counts_3 [OF ne doc_readable [OF inv safe] c])
  show "from_srt nd (to_srt layout_original_on_top ?d) = ?d"
    unfolding from_srt_to_srt [OF inv safe l nb]
    by (simp add: without_translation_def seg_of_def)
qed

lemma binary64_third: "binary64 (1 / 3) = 6004799503160661 / 18014398509481984"
  by code_simp

lemma paragraph_pieces:
  "split_blank [] paragraph_text = [ustr_of ''a'' @ [0x0A] @ ustr_of ''x'', ustr_of ''y'']"
proof -
  have z: "no_blank_line (ustr_of ''a'' @ [0x0A] @ ustr_of ''x'')"
    by (simp add: ustr_of_def py_isspace_def)
  have "split_blank [] ((ustr_of ''a'' @ [0x0A] @ ustr_of ''x'') @ [] @ [0x0A, 0x0A] @ 0x79 # [])
      = ([] @ (ustr_of ''a'' @ [0x0A] @ ustr_of ''x'') @ takeWhile (\<lambda>x. x \<noteq> 0x0A) [])
        # split_blank [] (0x79 # [])"
    by (rule split_blank_block [OF z]) (simp_all add: py_isspace_def)
  moreover have "split_blank [] [0x79] = [[0x79]]"
    using split_blank_plain [of "[0x79]" "[]"] by simp
  ultimately show ?thesis by (simp add: paragraph_text_def ustr_of_def)
qed

lemma paragraph_seg_written:
  "layout_text layout_original_on_top paragraph_seg = paragraph_text"
  "read_line paragraph_text = paragraph_text"
  "first_line paragraph_text = seg_text paragraph_seg"
  "unread nd paragraph_text"
  "srt_writable layout_original_on_top nd paragraph_seg"
proof -
  show w: "layout_text layout_original_on_top paragraph_seg = paragraph_text"
    by (simp add: layout_text_def Let_def paragraph_seg_def paragraph_text_def ustr_of_def)
  show r: "read_line paragraph_text = paragraph_text"
    by (simp add: read_line_def py_rstrip_def trailing_space_def paragraph_text_def ustr_of_def
        py_isspace_def)
  have y: "srt_block_segments nd False (ustr_of ''y'') = []"
    by (simp add: srt_block_segments_def splitlines_def ustr_of_def is_linebreak_def)
  show u: "unread nd paragraph_text" unfolding unread_def paragraph_pieces by (simp add: y)
  show f: "first_line paragraph_text = seg_text paragraph_seg"
    by (simp add: first_line_def paragraph_text_def paragraph_seg_def ustr_of_def
        is_linebreak_def)
  have "0 \<le> start_time paragraph_seg \<and> start_time paragraph_seg < 360000000
      \<and> 0 \<le> end_time paragraph_seg \<and> end_time paragraph_seg < 360000000"
    by (simp add: paragraph_seg_def)
  then show "srt_writable layout_original_on_top nd paragraph_seg"
    unfolding srt_writable_def w r using u f by simp
qed

lemma paragraph_doc_facts:
  "doc_inv paragraph_doc"
  "list_all (srt_writable layout_original_on_top nd) paragraph_doc"
  "paragraph_doc \<noteq> [] \<longrightarrow> srt_last_writable layout_original_on_top nd (last paragraph_doc)"
  "\<not> has_translated_subtitle
       (split_blank [] (py_strip (to_srt layout_original_on_top paragraph_doc)))"
proof -
  let ?sc = "seg_of ''c'' 1000 2000"
  show inv: "doc_inv paragraph_doc"
    by (simp add: paragraph_doc_def paragraph_seg_def doc_inv_def sorted_by_start_def
        no_blank_text_def seg_of_def strip_nonempty_iff ustr_of_def py_isspace_def)
  have c: "srt_safe layout_original_on_top ?sc"
    by (simp add: srt_safe_def text_defs)
  have cl: "first_line (py_rstrip (layout_text layout_original_on_top ?sc)) = seg_text ?sc"
    "py_rstrip (layout_text layout_original_on_top ?sc) = ustr_of ''c''"
    by (simp_all add: text_defs)
  show wr: "list_all (srt_writable layout_original_on_top nd) paragraph_doc"
    using paragraph_seg_written(5) [of nd] srt_safe_writable [OF c, of nd]
    by (simp add: paragraph_doc_def)
  show "paragraph_doc \<noteq> [] \<longrightarrow> srt_last_writable layout_original_on_top nd (last paragraph_doc)"
    using srt_safe_last_writable [OF c cl(1), of nd] by (simp add: paragraph_doc_def)
  have ne: "paragraph_doc \<noteq> []" by (simp add: paragraph_doc_def)
  have wt: "\<forall>sg\<in>set paragraph_doc. written layout_original_on_top sg"
    using doc_written [OF inv wr] by blast
  have t: "0 \<le> start_time paragraph_seg" "0 \<le> end_time paragraph_seg"
    "0 \<le> start_time ?sc" "0 \<le> end_time ?sc"
    by (simp_all add: paragraph_seg_def seg_of_def)
  have lead: "dropWhile py_isspace paragraph_text \<noteq> []"
    "0x0A \<notin> set (takeWhile py_isspace paragraph_text)"
    "dropWhile py_isspace (ustr_of ''c'') \<noteq> []"
    "0x0A \<notin> set (takeWhile py_isspace (ustr_of ''c''))"
    by (simp_all add: paragraph_text_def ustr_of_def py_isspace_def)
  have s1: "split_blank [] (srt_head 1 paragraph_seg @ paragraph_text)
      = [srt_head 1 paragraph_seg @ ustr_of ''a'' @ [0x0A] @ ustr_of ''x'', ustr_of ''y'']"
    unfolding split_blank_chunk [OF t(1,2) lead(1,2)] paragraph_pieces by simp
  have "split_blank [] (ustr_of ''c'') = [ustr_of ''c'']"
    using split_blank_plain [of "ustr_of ''c''" "[]"] by (simp add: ustr_of_def)
  then have s2: "split_blank [] (srt_head 2 ?sc @ ustr_of ''c'') = [srt_head 2 ?sc @ ustr_of ''c'']"
    unfolding split_blank_chunk [OF t(3,4) lead(3,4)] by simp
  have ch: "srt_chunks layout_original_on_top 1 paragraph_doc
      = [srt_head 1 paragraph_seg @ ustr_of ''a'' @ [0x0A] @ ustr_of ''x'', ustr_of ''y'',
         srt_head 2 ?sc @ ustr_of ''c'']"
    unfolding paragraph_doc_def srt_chunks.simps paragraph_seg_written(1,2) cl(2) s1
    using s2 by (simp add: numeral_2_eq_2)
  have v: "ustr_of ''a'' @ [0x0A] @ ustr_of ''x'' \<noteq> []" "ustr_of ''c'' \<noteq> []"
    by (simp_all add: ustr_of_def)
  have n1: "length (splitlines (srt_head 1 paragraph_seg @ ustr_of ''a'' @ [0x0A] @ ustr_of ''x''))
      = 4"
    unfolding splitlines_head [OF t(1,2) v(1), of 1]
    by (simp add: splitlines_def ustr_of_def is_linebreak_def)
  have n2: "length (splitlines (ustr_of ''y'')) = 1"
    by (simp add: splitlines_def ustr_of_def is_linebreak_def)
  have n3: "length (splitlines (srt_head 2 ?sc @ ustr_of ''c'')) = 3"
    unfolding splitlines_head [OF t(3,4) v(2), of 2]
    by (simp add: splitlines_def ustr_of_def is_linebreak_def)
  have cnt: "map (\<lambda>b. length (splitlines b)) (srt_chunks layout_original_on_top 1 paragraph_doc)
      = [4, 1, 3]"
    unfolding ch using n1 n2 n3 by simp
  show "\<not> has_translated_subtitle
       (split_blank [] (py_strip (to_srt layout_original_on_top paragraph_doc)))"
    unfolding srt_chunks_of_file [OF ne wt] has_translated_subtitle_def Let_def cnt
    by (simp add: binary64_third binary64_98)
qed

text \<open>
  What the hypotheses of the round trip leave out, each with a document on which the
  round trip fails although the test for translated subtitles is not triggered. A line
  break in an original text: only the first line is read back.
\<close>

lemma to_srt_from_srt_line_break:
  "doc_inv line_break_doc
   \<and> \<not> has_translated_subtitle
         (split_blank [] (py_strip (to_srt layout_original_on_top line_break_doc)))
   \<and> map seg_text (from_srt (\<lambda>c. None) (to_srt layout_original_on_top line_break_doc))
       = [ustr_of ''a'', ustr_of ''c'']
   \<and> map seg_text line_break_doc = [ustr_of ''a'' @ [0x0A] @ ustr_of ''b'', ustr_of ''c'']"
proof -
  have "doc_inv line_break_doc"
    by (simp add: line_break_doc_def doc_inv_def sorted_by_start_def no_blank_text_def
        seg_of_def strip_nonempty_iff ustr_of_def py_isspace_def)
  then show ?thesis
    unfolding line_break_file using translated_doc_read(3)
    by (simp add: translated_doc_read(2) seg_of_def line_break_doc_def)
qed

text \<open>
  A layout that writes the translated text first, on a segment that has one: the
  translated text is read back as the original text.
\<close>

lemma to_srt_from_srt_translate_on_top:
  "doc_inv translated_doc
   \<and> \<not> has_translated_subtitle
         (split_blank [] (py_strip (to_srt layout_translate_on_top translated_doc)))
   \<and> map seg_text (from_srt (\<lambda>c. None) (to_srt layout_translate_on_top translated_doc))
       = [ustr_of ''b'', ustr_of ''c'']
   \<and> map seg_text translated_doc = [ustr_of ''a'', ustr_of ''c'']"
  unfolding translate_on_top_file using translated_doc_read(1) swapped_doc_read(2)
  by (simp add: swapped_doc_read(1) seg_of_def translated_doc_def)

lemma to_srt_from_srt_only_translate:
  "doc_inv translated_doc
   \<and> \<not> has_translated_subtitle
         (split_blank [] (py_strip (to_srt layout_only_translate translated_doc)))
   \<and> map seg_text (from_srt (\<lambda>c. None) (to_srt layout_only_translate translated_doc))
       = [ustr_of ''b'', ustr_of ''c'']
   \<and> map seg_text translated_doc = [ustr_of ''a'', ustr_of ''c'']"
  unfolding only_translate_file using translated_doc_read(1) plain_doc_read(2)
  by (simp add: plain_doc_read(1) seg_of_def translated_doc_def)

text \<open>
  The same two layouts are safe on a document with no translated text.
\<close>

lemma to_srt_from_srt_translation_first_plain:
  "doc_inv plain_doc
   \<and> list_all (srt_safe layout_translate_on_top) plain_doc
   \<and> list_all (srt_safe layout_only_translate) plain_doc"
  by (simp add: plain_doc_def doc_inv_def sorted_by_start_def no_blank_text_def strip_nonempty_iff
      srt_safe_untranslated seg_of_def ustr_of_def py_isspace_def is_linebreak_def)

text \<open>
  A blank line in a translated text, followed by what reads as a subtitle block: a
  second segment is read.
\<close>

lemma to_srt_from_srt_blank_line:
  "doc_inv blank_line_doc
   \<and> \<not> has_translated_subtitle
         (split_blank [] (py_strip (to_srt layout_original_on_top blank_line_doc)))
   \<and> map seg_text (from_srt (\<lambda>c. None) (to_srt layout_original_on_top blank_line_doc))
       = [ustr_of ''a'', ustr_of ''fake'']
   \<and> map seg_text blank_line_doc = [ustr_of ''a'']"
proof -
  have "doc_inv blank_line_doc"
    by (simp add: blank_line_doc_def doc_inv_def sorted_by_start_def no_blank_text_def
        strip_nonempty_iff ustr_of_def py_isspace_def)
  then show ?thesis
    unfolding blank_line_file using two_block_doc_read(2)
    by (simp add: two_block_doc_read(1) seg_of_def blank_line_doc_def)
qed

text \<open>
  A blank line in a translated text, followed by one line: the document is writable
  and is read back.
\<close>

lemma to_srt_from_srt_paragraphs:
  "from_srt nd (to_srt layout_original_on_top paragraph_doc)
     = [seg_of ''a'' 0 1000, seg_of ''c'' 1000 2000]"
  unfolding from_srt_to_srt_general [OF paragraph_doc_facts]
  by (simp add: paragraph_doc_def paragraph_seg_def without_translation_def seg_of_def)

text \<open>
  A time of 100 hours, or a negative time: the timestamp line does not match the
  pattern and the segment is dropped.
\<close>

lemma to_srt_from_srt_hundred_hours:
  "doc_inv [seg_of ''a'' 0 360000000]
   \<and> \<not> has_translated_subtitle
         (split_blank [] (py_strip (to_srt layout_original_on_top [seg_of ''a'' 0 360000000])))
   \<and> from_srt (\<lambda>c. None) (to_srt layout_original_on_top [seg_of ''a'' 0 360000000]) = []"
proof -
  have "doc_inv [seg_of ''a'' 0 360000000]"
    by (simp add: doc_inv_def sorted_by_start_def no_blank_text_def seg_of_def
        strip_nonempty_iff ustr_of_def py_isspace_def)
  moreover have "\<not> has_translated_subtitle [long_block]"
    by (simp add: has_translated_subtitle_def long_block_read(3) binary64_zero binary64_98)
  ultimately show ?thesis by (simp add: long_block_read)
qed

lemma to_srt_from_srt_negative_time:
  "doc_inv [seg_of ''a'' (- 1) 1000]
   \<and> \<not> has_translated_subtitle
         (split_blank [] (py_strip (to_srt layout_original_on_top [seg_of ''a'' (- 1) 1000])))
   \<and> from_srt (\<lambda>c. None) (to_srt layout_original_on_top [seg_of ''a'' (- 1) 1000]) = []"
proof -
  have "doc_inv [seg_of ''a'' (- 1) 1000]"
    by (simp add: doc_inv_def sorted_by_start_def no_blank_text_def seg_of_def
        strip_nonempty_iff ustr_of_def py_isspace_def)
  moreover have "\<not> has_translated_subtitle [negative_block]"
    by (simp add: has_translated_subtitle_def negative_block_read(3) binary64_zero binary64_98)
  ultimately show ?thesis by (simp add: negative_block_read)
qed

text \<open>
  Claim C5, as stated for every document whose output does not trigger the test for
  translated subtitles, fails on the document of the one segment with the text
  \<^verbatim>\<open>"a "\<close> (a trailing space) from 0 to 1000: \<open>to_srt\<close> ends the file with that text
  and a newline, \<open>from_srt\<close> strips the file before it splits it into blocks, and
  the text read back is \<^verbatim>\<open>"a"\<close>. The one block has 3 lines, so the test is not
  triggered.
\<close>

theorem to_srt_from_srt_trailing_space:
  "doc_inv [seg_of ''a '' 0 1000]
   \<and> \<not> has_translated_subtitle
         (split_blank [] (py_strip (to_srt layout_original_on_top [seg_of ''a '' 0 1000])))
   \<and> from_srt (\<lambda>c. None) (to_srt layout_original_on_top [seg_of ''a '' 0 1000])
       = [seg_of ''a'' 0 1000]
   \<and> map seg_text (from_srt (\<lambda>c. None) (to_srt layout_original_on_top [seg_of ''a '' 0 1000]))
       \<noteq> map seg_text [seg_of ''a '' 0 1000]"
proof -
  have inv: "doc_inv [seg_of ''a '' 0 1000]"
    by (simp add: doc_inv_def sorted_by_start_def no_blank_text_def seg_of_def
        strip_nonempty_iff ustr_of_def py_isspace_def)
  have "from_srt (\<lambda>c. None) (to_srt layout_original_on_top [seg_of ''a '' 0 1000])
      = from_srt (\<lambda>c. None) (to_srt layout_original_on_top [seg_of ''a'' 0 1000])"
    by (simp add: from_srt_def trailing_space_file)
  then have r: "from_srt (\<lambda>c. None) (to_srt layout_original_on_top [seg_of ''a '' 0 1000])
      = [seg_of ''a'' 0 1000]"
    by (simp only: single_segment_read(1))
  show ?thesis
    unfolding r trailing_space_file
    using inv single_segment_read(2) by (simp add: seg_of_def ustr_of_def)
qed

text \<open>
  Claim C5, amended. For every document that satisfies the invariant, under any layout
  and for any table of digits, such that every segment is writable (the first line of
  its written text is its original text, no block that a blank line cuts out of the
  written text after the first is read as a subtitle, both times are from 0 up to, not
  including, 100 hours), the last segment is writable as the last one (the same of its
  written text without its trailing whitespace), and the output does not trigger the
  test for translated subtitles: \<open>to_srt\<close> followed by \<open>from_srt\<close> returns the same
  sequence of original texts, the same start times and the same end times. Whitespace
  at the start of a text, at the end of a text that is not the last one written, and
  around a translated text is kept or does no harm.
\<close>

theorem to_srt_from_srt_round_trip:
  assumes "doc_inv d" "list_all (srt_writable layout nd) d"
    "d \<noteq> [] \<longrightarrow> srt_last_writable layout nd (last d)"
    "\<not> has_translated_subtitle (split_blank [] (py_strip (to_srt layout d)))"
  shows "map seg_text (from_srt nd (to_srt layout d)) = map seg_text d
       \<and> map start_time (from_srt nd (to_srt layout d)) = map start_time d
       \<and> map end_time (from_srt nd (to_srt layout d)) = map end_time d"
  unfolding from_srt_to_srt_general [OF assms] by (simp add: without_translation_def comp_def)

theorem to_srt_from_srt_round_trip_witness:
  "doc_inv padded_doc
   \<and> list_all (srt_writable layout_original_on_top (\<lambda>c. None)) padded_doc
   \<and> srt_last_writable layout_original_on_top (\<lambda>c. None) (last padded_doc)
   \<and> \<not> has_translated_subtitle
         (split_blank [] (py_strip (to_srt layout_original_on_top padded_doc)))
   \<and> map seg_text (from_srt (\<lambda>c. None) (to_srt layout_original_on_top padded_doc))
       = [ustr_of ''hello '', ustr_of '' world'']
   \<and> map start_time (from_srt (\<lambda>c. None) (to_srt layout_original_on_top padded_doc))
       = [0, 1000]
   \<and> map end_time (from_srt (\<lambda>c. None) (to_srt layout_original_on_top padded_doc))
       = [1000, 2500]"
proof -
  have w: "list_all (srt_writable layout_original_on_top (\<lambda>c. None)) padded_doc"
    using padded_doc_safe by (simp add: list_all_iff srt_safe_writable)
  have ne: "padded_doc \<noteq> []" by (simp add: padded_doc_def)
  have "srt_safe layout_original_on_top (last padded_doc)"
    using padded_doc_safe ne by (simp add: list_all_iff)
  then have l: "srt_last_writable layout_original_on_top (\<lambda>c. None) (last padded_doc)"
    using padded_doc_last ne by (intro srt_safe_last_writable) simp_all
  from to_srt_from_srt_round_trip [OF padded_doc_inv w _ padded_doc_not_bilingual] l
    padded_doc_inv w padded_doc_not_bilingual
  show ?thesis by (simp add: padded_doc_def seg_of_def)
qed

end
